theory Spec2Isabelle
  imports Main "HOL-Library.AList"
begin

section \<open>Python string primitives used by \<^verbatim>\<open>format_bib.py\<close>\<close>

text \<open>
  Strings are lists of 8-bit characters, and the model covers ASCII text: the character
  classes and case mappings below are Python's on the ASCII range, and a character above
  127 belongs to no class and is carried through unchanged.
\<close>

definition newline :: string where
  "newline = [CHR 0x0A]"

definition ascii_uppercase :: string where
  "ascii_uppercase = ''ABCDEFGHIJKLMNOPQRSTUVWXYZ''"

definition ascii_lowercase :: string where
  "ascii_lowercase = ''abcdefghijklmnopqrstuvwxyz''"

definition digits :: string where
  "digits = ''0123456789''"

text \<open>\<^verbatim>\<open>string.punctuation\<close>: the 32 ASCII punctuation characters.\<close>

definition punctuation :: string where
  "punctuation = ''!'' @ [CHR 0x22] @ ''#$%&'' @ [CHR 0x27] @ ''()*+,-./:;<=>?@['' @ [CHR 0x5C]
     @ '']^_`{|}~''"

text \<open>Whitespace as \<^verbatim>\<open>str.split()\<close>, \<^verbatim>\<open>str.strip()\<close> and the pattern \<^verbatim>\<open>\s\<close> see it.\<close>

definition isspace :: "char \<Rightarrow> bool" where
  "isspace c = (c \<in> set [CHR 0x09, CHR 0x0A, CHR 0x0B, CHR 0x0C, CHR 0x0D,
                          CHR 0x1C, CHR 0x1D, CHR 0x1E, CHR 0x1F, CHR 0x20])"

definition isdigit :: "char \<Rightarrow> bool" where
  "isdigit c = (c \<in> set digits)"

definition isalpha :: "char \<Rightarrow> bool" where
  "isalpha c = (c \<in> set (ascii_lowercase @ ascii_uppercase))"

definition lower_char :: "char \<Rightarrow> char" where
  "lower_char c = (case map_of (zip ascii_uppercase ascii_lowercase) c of
                     Some d \<Rightarrow> d | None \<Rightarrow> c)"

definition upper_char :: "char \<Rightarrow> char" where
  "upper_char c = (case map_of (zip ascii_lowercase ascii_uppercase) c of
                     Some d \<Rightarrow> d | None \<Rightarrow> c)"

definition lower :: "string \<Rightarrow> string" where
  "lower s = map lower_char s"

definition upper :: "string \<Rightarrow> string" where
  "upper s = map upper_char s"

text \<open>\<^verbatim>\<open>s.strip()\<close> and \<^verbatim>\<open>s.rstrip(c)\<close> for a single character \<open>c\<close>.\<close>

definition strip :: "string \<Rightarrow> string" where
  "strip s = rev (dropWhile isspace (rev (dropWhile isspace s)))"

definition rstrip_char :: "char \<Rightarrow> string \<Rightarrow> string" where
  "rstrip_char c s = rev (dropWhile (\<lambda>x. x = c) (rev s))"

definition endswith_newline :: "string \<Rightarrow> bool" where
  "endswith_newline s = (s \<noteq> [] \<and> last s = CHR 0x0A)"

text \<open>\<^verbatim>\<open>s.split()\<close>: the maximal runs of non-whitespace characters.\<close>

function split_ws :: "string \<Rightarrow> string list" where
  "split_ws [] = []"
| "split_ws (c # cs) =
     (if isspace c then split_ws cs
      else (c # takeWhile (\<lambda>x. \<not> isspace x) cs)
             # split_ws (dropWhile (\<lambda>x. \<not> isspace x) cs))"
  by pat_completeness auto
termination
  by (relation "measure length") (auto simp: length_dropWhile_le less_Suc_eq_le)

text \<open>\<^verbatim>\<open>re.sub(r'\s+', ' ', s)\<close>: every maximal run of whitespace becomes one space.\<close>

function collapse_ws :: "string \<Rightarrow> string" where
  "collapse_ws [] = []"
| "collapse_ws (c # cs) =
     (if isspace c then CHR 0x20 # collapse_ws (dropWhile isspace cs)
      else c # collapse_ws cs)"
  by pat_completeness auto
termination
  by (relation "measure length") (auto simp: length_dropWhile_le less_Suc_eq_le)

text \<open>\<^verbatim>\<open>sep.join(xs)\<close>.\<close>

fun join :: "string \<Rightarrow> string list \<Rightarrow> string" where
  "join sep [] = []"
| "join sep [x] = x"
| "join sep (x # y # ys) = x @ sep @ join sep (y # ys)"

text \<open>
  \<^verbatim>\<open>xs[i:j]\<close> with Python's treatment of negative and out-of-range bounds: a negative
  bound counts from the end, and both bounds are clamped to the list.
\<close>

definition py_slice :: "'a list \<Rightarrow> int \<Rightarrow> int \<Rightarrow> 'a list" where
  "py_slice xs i j =
     (let len = int (length xs);
          a = (if i < 0 then max (i + len) 0 else min i len);
          b = (if j < 0 then max (j + len) 0 else min j len)
      in take (nat (b - a)) (drop (nat a) xs))"

text \<open>\<^verbatim>\<open>re.fullmatch(r'\d{4}', s)\<close>.\<close>

definition fullmatch_d4 :: "string \<Rightarrow> bool" where
  "fullmatch_d4 s = (length s = 4 \<and> list_all isdigit s)"

text \<open>
  \<^verbatim>\<open>re.split(r'\s+and\s+', author, flags=re.IGNORECASE)[0]\<close>: the text before the
  leftmost place where the separator matches. The separator matches at the head of a
  string when a non-empty whitespace run is followed by the letters a, n, d in either
  case and one more whitespace character.
\<close>

definition and_sep_at :: "string \<Rightarrow> bool" where
  "and_sep_at s =
     (case s of
        [] \<Rightarrow> False
      | c # cs \<Rightarrow> isspace c \<and>
          (case dropWhile isspace cs of
             a # n # d # w # _ \<Rightarrow>
               lower_char a = CHR ''a'' \<and> lower_char n = CHR ''n'' \<and>
               lower_char d = CHR ''d'' \<and> isspace w
           | _ \<Rightarrow> False))"

fun first_author :: "string \<Rightarrow> string" where
  "first_author [] = []"
| "first_author (c # cs) = (if and_sep_at (c # cs) then [] else c # first_author cs)"

section \<open>The parsed library\<close>

text \<open>
  \<^verbatim>\<open>bibtexparser\<close> hands the script a sequence of blocks. An \<^verbatim>\<open>Entry\<close> carries its type,
  its original key, its fields in source order and its start line; every other block
  carries a start line and its raw text (\<^verbatim>\<open>None\<close> when absent). A
  \<^verbatim>\<open>DuplicateBlockKeyBlock\<close> also carries the repeated key.
\<close>

record entry =
  entry_type :: string
  entry_key :: string
  entry_fields :: "(string \<times> string) list"
  start_line :: int

datatype block =
    Entry entry
  | DuplicateBlockKeyBlock string int "string option"
  | OtherBlock int "string option"

text \<open>\<^verbatim>\<open>Entry.fields_dict\<close>: a dictionary built from the field list, the last field of a name winning.\<close>

definition fields_dict :: "entry \<Rightarrow> string \<Rightarrow> string option" where
  "fields_dict e = map_of (rev (entry_fields e))"

fun block_raw :: "block \<Rightarrow> string option" where
  "block_raw (Entry e) = None"
| "block_raw (DuplicateBlockKeyBlock k l r) = r"
| "block_raw (OtherBlock l r) = r"

fun block_start_line :: "block \<Rightarrow> int" where
  "block_start_line (Entry e) = start_line e"
| "block_start_line (DuplicateBlockKeyBlock k l r) = l"
| "block_start_line (OtherBlock l r) = l"

fun is_entry :: "block \<Rightarrow> bool" where
  "is_entry (Entry e) = True"
| "is_entry _ = False"

section \<open>The functions of \<^verbatim>\<open>format_bib.py\<close>\<close>

definition STOP_WORDS :: "string set" where
  "STOP_WORDS = set [''a'', ''an'', ''the'', ''and'', ''or'', ''but'', ''in'', ''on'', ''at'',
     ''to'', ''for'', ''of'', ''with'', ''by'', ''is'', ''are'', ''was'', ''were'']"

text \<open>
  The part-of-speech tagger is an external collaborator. It is a parameter of the
  model: given the space-joined content words it returns the tokens of the document with
  their tags, or \<open>None\<close> when loading or running it raises.
\<close>

type_synonym tagger = "string \<Rightarrow> (string \<times> string) list option"

definition important_tokens :: "(string \<times> string) list \<Rightarrow> string list" where
  "important_tokens doc =
     map fst (filter (\<lambda>t. snd t \<in> set [''NOUN'', ''ADJ'', ''PROPN'']) doc)"

definition content_words_of :: "string \<Rightarrow> string list" where
  "content_words_of title =
     (let clean = map (\<lambda>c. if c \<in> set punctuation then CHR 0x20 else c) (lower title);
          words = split_ws clean
      in filter (\<lambda>w. w \<notin> STOP_WORDS \<and> length w > 1) words)"

definition refine_words :: "tagger \<Rightarrow> bool \<Rightarrow> string list \<Rightarrow> string list" where
  "refine_words nlp use_nlp content_words =
     (if use_nlp then
        (case nlp (join '' '' content_words) of
           None \<Rightarrow> content_words
         | Some doc \<Rightarrow>
             (let important = important_tokens doc
              in if important \<noteq> [] then important else content_words))
      else content_words)"

definition abbr_part :: "string \<Rightarrow> string" where
  "abbr_part word =
     (if length word \<le> 3 \<or> upper word = word then upper word
      else [lower_char (hd word)])"

definition extract_title_abbreviation :: "tagger \<Rightarrow> string \<Rightarrow> bool \<Rightarrow> int \<Rightarrow> string" where
  "extract_title_abbreviation nlp title use_nlp n =
     (if title = [] then []
      else
        (let content_words = content_words_of title
         in if content_words = [] then []
            else
              (let content_words' = refine_words nlp use_nlp content_words;
                   selected = py_slice content_words' (n - 2) n;
                   abbr_parts = map abbr_part selected
               in take 3 (concat abbr_parts))))"

definition extract_lastname :: "string \<Rightarrow> string" where
  "extract_lastname author =
     (if author = [] then ''unknown''
      else
        (let first = strip (first_author author);
             last_name =
               (if CHR '','' \<in> set first then takeWhile (\<lambda>c. c \<noteq> CHR '','') first
                else if split_ws first \<noteq> [] then last (split_ws first)
                else ''unknown'');
             r = lower (filter isalpha last_name)
         in if r = [] then ''unknown'' else r))"

definition get_field :: "entry \<Rightarrow> string \<Rightarrow> string \<Rightarrow> string" where
  "get_field e k dflt = (case fields_dict e k of Some v \<Rightarrow> v | None \<Rightarrow> dflt)"

definition clean_title_for_key :: "string \<Rightarrow> string" where
  "clean_title_for_key title =
     (if title = [] then []
      else
        (let cleaned = filter (\<lambda>c. c \<noteq> CHR ''}'') (filter (\<lambda>c. c \<noteq> CHR ''{'') title)
         in strip (collapse_ws cleaned)))"

section \<open>The script body\<close>

text \<open>What the script prints, one value per \<^verbatim>\<open>print\<close> call.\<close>

datatype message =
    Usage
  | DuplicateKeysFound
  | DuplicateKeyAt string int
  | DuplicateKeysAdvice
  | KeyConflict string
  | KeyConflictItem int string string
  | OutputWritten string
  | KeptEntries nat

record info =
  info_title :: string
  info_orig_key :: string
  info_line :: int

text \<open>
  The three accumulators of the first pass. The two dictionaries keep insertion order,
  so they are association lists with distinct keys.
\<close>

record state =
  seen_titles :: "string set"
  key_usage :: "(string \<times> info list) list"
  entry_replacements :: "(int \<times> string) list"

definition initial_state :: state where
  "initial_state = \<lparr>seen_titles = {}, key_usage = [], entry_replacements = []\<rparr>"

text \<open>\<^verbatim>\<open>key_usage.setdefault(key, []).append(info)\<close>.\<close>

definition setdefault_append :: "string \<Rightarrow> info \<Rightarrow> (string \<times> info list) list \<Rightarrow> (string \<times> info list) list" where
  "setdefault_append k item ku =
     AList.update k ((case map_of ku k of Some items \<Rightarrow> items | None \<Rightarrow> []) @ [item]) ku"

text \<open>The canonical title of an entry (lines 119 and 120).\<close>

definition entry_title :: "entry \<Rightarrow> string" where
  "entry_title e = clean_title_for_key (strip (get_field e ''title'' []))"

text \<open>The author string of an entry (lines 124 to 129).\<close>

definition entry_author :: "entry \<Rightarrow> string" where
  "entry_author e =
     (if fields_dict e ''author'' \<noteq> None then get_field e ''author'' []
      else if fields_dict e ''AUTHOR'' \<noteq> None then get_field e ''AUTHOR'' []
      else ''unknown'')"

text \<open>The year token of an entry (lines 131 to 138).\<close>

definition entry_year :: "entry \<Rightarrow> string" where
  "entry_year e =
     (let year =
            (if fields_dict e ''year'' \<noteq> None then strip (get_field e ''year'' [])
             else if fields_dict e ''YEAR'' \<noteq> None then strip (get_field e ''YEAR'' [])
             else ''0000'')
      in if fullmatch_d4 year then year else ''0000'')"

text \<open>
  The collision loop (lines 143 to 146). It exits when the candidate is not in the usage
  index; \<open>None\<close> is the loop that never exits.
\<close>

partial_function (option) escalate ::
  "tagger \<Rightarrow> (string \<times> info list) list \<Rightarrow> string \<Rightarrow> string \<Rightarrow> int \<Rightarrow> string option" where
  "escalate nlp ku title k n =
     (if k \<in> fst ` set ku
      then escalate nlp ku title (k @ extract_title_abbreviation nlp title True n) (2 * n)
      else Some k)"

declare escalate.simps [code]

text \<open>The formatted entry (lines 150 to 156).\<close>

definition field_line :: "string \<times> string \<Rightarrow> string" where
  "field_line f = ''  '' @ fst f @ '' = {'' @ snd f @ ''},''"

definition opening_line :: "entry \<Rightarrow> string \<Rightarrow> string \<Rightarrow> string" where
  "opening_line e k title = ''@'' @ entry_type e @ ''{'' @ k @ '', title = {'' @ title @ ''},''"

definition format_entry :: "entry \<Rightarrow> string \<Rightarrow> string \<Rightarrow> string" where
  "format_entry e k title =
     (let other = filter (\<lambda>f. fst f \<noteq> ''title'') (entry_fields e);
          lines0 = opening_line e k title # map field_line other;
          lines1 = (if length lines0 > 1
                    then butlast lines0 @ [rstrip_char (CHR '','') (last lines0)]
                    else lines0)
      in join newline (lines1 @ [''}'']))"

text \<open>One iteration of the first pass on an entry (lines 119 to 156).\<close>

definition pass1_entry :: "tagger \<Rightarrow> state \<Rightarrow> entry \<Rightarrow> state option" where
  "pass1_entry nlp st e =
     (let title = entry_title e
      in if lower title \<in> seen_titles st then Some st
         else
           (let seen' = insert (lower title) (seen_titles st);
                k0 = extract_lastname (entry_author e) @ entry_year e;
                item = \<lparr>info_title = title, info_orig_key = entry_key e, info_line = start_line e\<rparr>
            in case escalate nlp (key_usage st) title k0 2 of
                 None \<Rightarrow> None
               | Some k \<Rightarrow>
                   Some \<lparr>seen_titles = seen',
                         key_usage = setdefault_append k item (key_usage st),
                         entry_replacements =
                           AList.update (start_line e) (format_entry e k title)
                             (entry_replacements st)\<rparr>))"

fun pass1 :: "tagger \<Rightarrow> state \<Rightarrow> block list \<Rightarrow> state option" where
  "pass1 nlp st [] = Some st"
| "pass1 nlp st (Entry e # bs) =
     (case pass1_entry nlp st e of None \<Rightarrow> None | Some st' \<Rightarrow> pass1 nlp st' bs)"
| "pass1 nlp st (b # bs) = pass1 nlp st bs"

text \<open>The conflict report (lines 159 to 163).\<close>

definition conflict_report :: "(string \<times> info list) list \<Rightarrow> message list" where
  "conflict_report ku =
     concat (map (\<lambda>(k, items).
                    if length items > 1
                    then KeyConflict k #
                         map (\<lambda>it. KeyConflictItem (info_line it) (info_title it) (info_orig_key it)) items
                    else [])
                 ku)"

text \<open>
  The second pass (lines 167 to 181): \<open>write_block\<close> is the loop body, with the text
  written so far passed through.
\<close>

definition write_block :: "(int \<times> string) list \<Rightarrow> string \<Rightarrow> block \<Rightarrow> string" where
  "write_block er out b =
     (case b of
        Entry e \<Rightarrow>
          (case map_of er (start_line e) of
             Some text \<Rightarrow> out @ text @ newline
           | None \<Rightarrow> out)
      | _ \<Rightarrow>
          (case block_raw b of
             Some raw \<Rightarrow> (if \<not> endswith_newline raw then (out @ raw) @ newline else out @ raw)
           | None \<Rightarrow> out @ ''% [block preserved]'' @ newline))"

definition pass2 :: "(int \<times> string) list \<Rightarrow> block list \<Rightarrow> string" where
  "pass2 er blocks = foldl (write_block er) [] blocks"

text \<open>
  What a run leaves behind: the exit status, what it printed on standard output and on
  standard error, and the file it wrote (path and content), if any.
\<close>

record outcome =
  exit_status :: nat
  stdout :: "message list"
  stderr :: "message list"
  written :: "(string \<times> string) option"

definition duplicate_blocks :: "block list \<Rightarrow> (string \<times> int) list" where
  "duplicate_blocks blocks =
     concat (map (\<lambda>b. case b of DuplicateBlockKeyBlock k l r \<Rightarrow> [(k, l)] | _ \<Rightarrow> []) blocks)"

text \<open>The script from the duplicate check on (lines 96 to 184); \<open>None\<close> is a run that never ends.\<close>

definition run :: "tagger \<Rightarrow> string \<Rightarrow> block list \<Rightarrow> outcome option" where
  "run nlp output_file blocks =
     (if duplicate_blocks blocks \<noteq> [] then
        Some \<lparr>exit_status = 1, stdout = [],
              stderr = [DuplicateKeysFound]
                       @ map (\<lambda>(k, l). DuplicateKeyAt k (l + 1)) (duplicate_blocks blocks)
                       @ [DuplicateKeysAdvice],
              written = None\<rparr>
      else
        (case pass1 nlp initial_state blocks of
           None \<Rightarrow> None
         | Some st \<Rightarrow>
             Some \<lparr>exit_status = 0,
                   stdout = conflict_report (key_usage st)
                            @ [OutputWritten output_file,
                               KeptEntries (length (entry_replacements st))],
                   stderr = [],
                   written = Some (output_file, pass2 (entry_replacements st) blocks)\<rparr>))"

text \<open>The whole script: the argument check, the parse, then \<open>run\<close>.\<close>

definition main :: "tagger \<Rightarrow> (string \<Rightarrow> block list) \<Rightarrow> string list \<Rightarrow> outcome option" where
  "main nlp parse_file argv =
     (if length argv \<noteq> 2 then
        Some \<lparr>exit_status = 1, stdout = [Usage], stderr = [], written = None\<rparr>
      else
        (let input_file = argv ! 1;
             output_file = input_file @ ''.reformatted''
         in run nlp output_file (parse_file input_file)))"

section \<open>Auxiliary notions\<close>

text \<open>
  A string is whitespace-normal when every whitespace character in it is a blank and no
  two whitespace characters are adjacent.
\<close>

fun ws_normal :: "string \<Rightarrow> bool" where
  "ws_normal [] = True"
| "ws_normal [c] = (isspace c \<longrightarrow> c = CHR 0x20)"
| "ws_normal (c # d # cs) = ((isspace c \<longrightarrow> c = CHR 0x20 \<and> \<not> isspace d) \<and> ws_normal (d # cs))"

text \<open>The entries of a block sequence, in order.\<close>

fun entries_of :: "block list \<Rightarrow> entry list" where
  "entries_of [] = []"
| "entries_of (Entry e # bs) = e # entries_of bs"
| "entries_of (b # bs) = entries_of bs"

text \<open>The provenance record the first pass builds for an entry (line 142).\<close>

definition info_of :: "entry \<Rightarrow> info" where
  "info_of e = \<lparr>info_title = entry_title e, info_orig_key = entry_key e, info_line = start_line e\<rparr>"

text \<open>The first pass on the entries alone.\<close>

fun pass1_entries :: "tagger \<Rightarrow> state \<Rightarrow> entry list \<Rightarrow> state option" where
  "pass1_entries nlp st [] = Some st"
| "pass1_entries nlp st (e # es) =
     (case pass1_entry nlp st e of None \<Rightarrow> None | Some st' \<Rightarrow> pass1_entries nlp st' es)"

text \<open>
  The invariant of the first pass, for the entries \<open>es\<close> handled so far: the keys of the
  usage index are distinct, each holds the provenance of exactly one handled entry, and
  each registered replacement is the formatted text of a handled entry under a key whose
  provenance is that entry.
\<close>

definition usage_inv :: "entry set \<Rightarrow> state \<Rightarrow> bool" where
  "usage_inv es st =
     (distinct (map fst (key_usage st))
      \<and> (\<forall>p\<in>set (key_usage st). \<exists>e\<in>es. snd p = [info_of e])
      \<and> (\<forall>p\<in>set (entry_replacements st). \<exists>e\<in>es. \<exists>k.
            fst p = start_line e \<and> snd p = format_entry e k (entry_title e)
            \<and> (k, [info_of e]) \<in> set (key_usage st)))"

text \<open>
  The candidate key after \<open>r\<close> retries when \<open>n\<close> starts at 2 and doubles: the base key
  followed by the abbreviations for \<open>n = 2, 4, ..., 2 * 2 ^ (r - 1)\<close>.
\<close>

fun escalation_key :: "tagger \<Rightarrow> string \<Rightarrow> string \<Rightarrow> nat \<Rightarrow> string" where
  "escalation_key nlp title c 0 = c"
| "escalation_key nlp title c (Suc r) =
     escalation_key nlp title c r @ extract_title_abbreviation nlp title True (2 * 2 ^ r)"

section \<open>Example inputs\<close>

text \<open>The tagger that cannot be loaded.\<close>

definition unavailable :: tagger where
  "unavailable = (\<lambda>_. None)"

text \<open>A library in which the parser has flagged a repeated entry key.\<close>

definition dup_example :: "block list" where
  "dup_example =
     [Entry \<lparr>entry_type = ''article'', entry_key = ''abc123'',
             entry_fields = [(''title'', ''On Keys'')], start_line = 0\<rparr>,
      DuplicateBlockKeyBlock ''abc123'' 4 (Some ''@article{abc123, title = {Again}}'')]"

text \<open>A parser that returns this library for any file.\<close>

definition parse_example :: "string \<Rightarrow> block list" where
  "parse_example input_file = dup_example"

text \<open>A comment without a final line break and a string macro with one.\<close>

definition comment_example :: block where
  "comment_example = OtherBlock 0 (Some ''% my library'')"

definition string_example :: block where
  "string_example = OtherBlock 3 (Some (''@string{jml = {J. Mach. Learn.}}'' @ newline))"

text \<open>An entry whose only field is its title, and one with three fields.\<close>

definition title_only_example :: entry where
  "title_only_example =
     \<lparr>entry_type = ''book'', entry_key = ''k1'', entry_fields = [(''title'', ''Sets'')],
      start_line = 0\<rparr>"

definition three_field_example :: entry where
  "three_field_example =
     \<lparr>entry_type = ''article'', entry_key = ''k2'',
      entry_fields = [(''author'', ''Smith, J.''), (''title'', ''Sets''), (''year'', ''2020'')],
      start_line = 4\<rparr>"

text \<open>A title with eight content words.\<close>

definition long_title_example :: string where
  "long_title_example = ''Alpha beta gamma delta epsilon zeta iota theta''"



text \<open>Two entries by the same surname and year; the second title holds stop words only.\<close>

definition stop_word_library :: "block list" where
  "stop_word_library =
     [Entry \<lparr>entry_type = ''article'', entry_key = ''a1'',
             entry_fields = [(''title'', ''Deep Learning''), (''author'', ''Smith, J.''),
                             (''year'', ''2020'')],
             start_line = 0\<rparr>,
      Entry \<lparr>entry_type = ''article'', entry_key = ''a2'',
             entry_fields = [(''title'', ''The Of And''), (''author'', ''Smith, A.''),
                             (''year'', ''2020'')],
             start_line = 5\<rparr>]"

text \<open>Two entries by the same surname and year, with different titles.\<close>

definition collision_library :: "block list" where
  "collision_library =
     [Entry \<lparr>entry_type = ''article'', entry_key = ''b1'',
             entry_fields = [(''title'', ''Deep Learning''), (''author'', ''Smith, J.''),
                             (''year'', ''2020'')],
             start_line = 0\<rparr>,
      Entry \<lparr>entry_type = ''article'', entry_key = ''b2'',
             entry_fields = [(''title'', ''Graph Neural Networks''), (''author'', ''Smith, A.''),
                             (''year'', ''2020'')],
             start_line = 5\<rparr>]"

text \<open>A comment and two entries whose titles differ in case, braces and spacing only.\<close>

definition survey_entry :: entry where
  "survey_entry =
     \<lparr>entry_type = ''article'', entry_key = ''c1'',
      entry_fields = [(''title'', ''Deep Learning for X''), (''author'', ''Smith, J.''),
                      (''year'', ''2020'')],
      start_line = 1\<rparr>"

definition survey_entry_again :: entry where
  "survey_entry_again =
     \<lparr>entry_type = ''article'', entry_key = ''c2'',
      entry_fields = [(''title'', ''deep {LEARNING} for  X''), (''author'', ''Smith, J.''),
                      (''year'', ''2020'')],
      start_line = 6\<rparr>"

definition duplicate_title_library :: "block list" where
  "duplicate_title_library =
     [OtherBlock 0 (Some ''% survey papers''), Entry survey_entry, Entry survey_entry_again]"

text \<open>An entry without a title field, and one whose title is a pair of braces.\<close>

definition untitled_entry :: entry where
  "untitled_entry =
     \<lparr>entry_type = ''misc'', entry_key = ''d1'',
      entry_fields = [(''author'', ''Doe, J.'')], start_line = 0\<rparr>"

definition blank_title_entry :: entry where
  "blank_title_entry =
     \<lparr>entry_type = ''misc'', entry_key = ''d2'',
      entry_fields = [(''title'', '' {} ''), (''author'', ''Roe, R.'')], start_line = 3\<rparr>"

definition untitled_library :: "block list" where
  "untitled_library = [Entry untitled_entry, Entry blank_title_entry]"

text \<open>A usage index in which the base key and its first two extensions are taken.\<close>

definition taken_keys :: "(string \<times> info list) list" where
  "taken_keys =
     [(''smith2020'', [\<lparr>info_title = ''Sets'', info_orig_key = ''e1'', info_line = 0\<rparr>]),
      (''smith2020ab'', [\<lparr>info_title = ''Alpha beta'', info_orig_key = ''e2'', info_line = 5\<rparr>]),
      (''smith2020abgd'',
       [\<lparr>info_title = ''Alpha beta gamma delta'', info_orig_key = ''e3'', info_line = 10\<rparr>])]"

text \<open>An entry by the same surname and year with the eight-word title.\<close>

definition long_title_entry :: entry where
  "long_title_entry =
     \<lparr>entry_type = ''article'', entry_key = ''e4'',
      entry_fields = [(''title'', long_title_example), (''author'', ''Smith, C.''),
                      (''year'', ''2020'')],
      start_line = 15\<rparr>"

text \<open>Four entries by the same surname and year whose titles share their first words.\<close>

definition escalation_library :: "block list" where
  "escalation_library =
     [Entry \<lparr>entry_type = ''article'', entry_key = ''e1'',
             entry_fields = [(''title'', ''Sets''), (''author'', ''Smith, J.''), (''year'', ''2020'')],
             start_line = 0\<rparr>,
      Entry \<lparr>entry_type = ''article'', entry_key = ''e2'',
             entry_fields = [(''title'', ''Alpha beta''), (''author'', ''Smith, A.''),
                             (''year'', ''2020'')],
             start_line = 5\<rparr>,
      Entry \<lparr>entry_type = ''article'', entry_key = ''e3'',
             entry_fields = [(''title'', ''Alpha beta gamma delta''), (''author'', ''Smith, B.''),
                             (''year'', ''2020'')],
             start_line = 10\<rparr>,
      Entry long_title_entry]"

text \<open>The accumulators of the first pass after the first three of these entries.\<close>

definition taken_state :: state where
  "taken_state =
     \<lparr>seen_titles = {''sets'', ''alpha beta'', ''alpha beta gamma delta''},
      key_usage = taken_keys,
      entry_replacements = []\<rparr>"

text \<open>A titled entry followed by an entry without a title, by the same surname and year.\<close>

definition titled_smith_entry :: entry where
  "titled_smith_entry =
     \<lparr>entry_type = ''article'', entry_key = ''s1'',
      entry_fields = [(''title'', ''Deep Learning''), (''author'', ''Smith, J.''),
                      (''year'', ''2020'')],
      start_line = 0\<rparr>"

definition untitled_smith_entry :: entry where
  "untitled_smith_entry =
     \<lparr>entry_type = ''misc'', entry_key = ''s2'',
      entry_fields = [(''author'', ''Smith, A.''), (''year'', ''2020'')],
      start_line = 5\<rparr>"

definition untitled_collision_library :: "block list" where
  "untitled_collision_library = [Entry titled_smith_entry, Entry untitled_smith_entry]"

section \<open>Title normalisation\<close>

lemma isspace_blank: "isspace (CHR 0x20)"
  by (simp add: isspace_def)

lemma collapse_ws_head:
  assumes "collapse_ws (dropWhile isspace cs) = x # xs"
  shows "\<not> isspace x"
proof (cases "dropWhile isspace cs")
  case Nil
  with assms show ?thesis by simp
next
  case (Cons h t)
  then have "\<not> isspace h"
    using hd_dropWhile [of isspace cs] by simp
  with assms Cons show ?thesis by simp
qed

lemma ws_normal_collapse_ws: "ws_normal (collapse_ws s)"
proof (induction s rule: collapse_ws.induct)
  case 1
  show ?case by simp
next
  case (2 c cs)
  show ?case
  proof (cases "isspace c")
    case True
    with 2 have ih: "ws_normal (collapse_ws (dropWhile isspace cs))" by simp
    show ?thesis
    proof (cases "collapse_ws (dropWhile isspace cs)")
      case Nil
      with True show ?thesis by simp
    next
      case (Cons x xs)
      with ih collapse_ws_head [OF Cons] True show ?thesis by simp
    qed
  next
    case False
    with 2 have ih: "ws_normal (collapse_ws cs)" by simp
    with False show ?thesis by (cases "collapse_ws cs") simp_all
  qed
qed

lemma collapse_ws_fixed: "ws_normal s \<Longrightarrow> collapse_ws s = s"
  by (induction s rule: ws_normal.induct) (auto simp: isspace_blank)

lemma ws_normal_append: "ws_normal (xs @ ys) \<Longrightarrow> ws_normal xs \<and> ws_normal ys"
proof (induction xs rule: ws_normal.induct)
  case 1
  then show ?case by simp
next
  case (2 c)
  then show ?case by (cases ys) auto
next
  case (3 c d cs)
  then show ?case by auto
qed

lemma strip_prefix_suffix: "\<exists>xs ys. s = xs @ strip s @ ys"
proof -
  let ?u = "dropWhile isspace s"
  have "?u = rev (dropWhile isspace (rev ?u)) @ rev (takeWhile isspace (rev ?u))"
    by (metis rev_append rev_rev_ident takeWhile_dropWhile_id)
  then have "?u = strip s @ rev (takeWhile isspace (rev ?u))"
    by (simp add: strip_def)
  then have "takeWhile isspace s @ ?u
             = takeWhile isspace s @ strip s @ rev (takeWhile isspace (rev ?u))"
    by simp
  then have "s = takeWhile isspace s @ strip s @ rev (takeWhile isspace (rev ?u))"
    by simp
  then show ?thesis by blast
qed

lemma ws_normal_strip: "ws_normal s \<Longrightarrow> ws_normal (strip s)"
proof -
  assume a: "ws_normal s"
  obtain xs ys where "s = xs @ strip s @ ys" using strip_prefix_suffix by blast
  with a have "ws_normal (xs @ strip s @ ys)" by simp
  then have "ws_normal (strip s @ ys)" using ws_normal_append by blast
  then show ?thesis using ws_normal_append by blast
qed

lemma last_dropWhile_keep: "dropWhile P xs \<noteq> [] \<Longrightarrow> last (dropWhile P xs) = last xs"
  by (induction xs) (auto split: if_splits)

lemma strip_idem: "strip (strip s) = strip s"
proof -
  let ?u = "dropWhile isspace s"
  let ?v = "dropWhile isspace (rev ?u)"
  have s: "strip s = rev ?v" by (simp add: strip_def)
  show ?thesis
  proof (cases "?v = []")
    case True
    with s have "strip s = []" by simp
    then show ?thesis by (simp add: strip_def [of "[]"])
  next
    case False
    then have hv: "\<not> isspace (hd ?v)" by (rule hd_dropWhile)
    from False have "last ?v = last (rev ?u)" by (rule last_dropWhile_keep)
    moreover from False have u: "?u \<noteq> []"
      by (metis dropWhile.simps(1) rev.simps(1))
    ultimately have "last ?v = hd ?u" by (simp add: last_rev)
    moreover from u have "\<not> isspace (hd ?u)" by (rule hd_dropWhile)
    ultimately have lv: "\<not> isspace (last ?v)" by simp
    from False lv have "dropWhile isspace (rev ?v) = rev ?v"
      by (simp add: dropWhile_eq_self_iff hd_rev)
    moreover from False hv have "dropWhile isspace ?v = ?v"
      by (simp add: dropWhile_eq_self_iff)
    ultimately have "strip (rev ?v) = rev ?v"
      by (simp add: strip_def)
    with s show ?thesis by simp
  qed
qed

lemma set_strip: "set (strip s) \<subseteq> set s"
proof -
  obtain xs ys where "s = xs @ strip s @ ys" using strip_prefix_suffix by blast
  then have "set s = set xs \<union> set (strip s) \<union> set ys" by (metis set_append Un_assoc)
  then show ?thesis by blast
qed

lemma set_collapse_ws: "set (collapse_ws s) \<subseteq> insert (CHR 0x20) (set s)"
proof (induction s rule: collapse_ws.induct)
  case 1
  show ?case by simp
next
  case (2 c cs)
  show ?case
  proof (cases "isspace c")
    case True
    with 2 have "set (collapse_ws (dropWhile isspace cs)) \<subseteq> insert (CHR 0x20) (set (dropWhile isspace cs))"
      by simp
    moreover have "set (dropWhile isspace cs) \<subseteq> set cs" by (auto dest: set_dropWhileD)
    ultimately show ?thesis using True by auto
  next
    case False
    with 2 show ?thesis by auto
  qed
qed

lemma clean_title_no_brace:
  "CHR ''{'' \<notin> set (clean_title_for_key x) \<and> CHR ''}'' \<notin> set (clean_title_for_key x)"
proof (cases "x = []")
  case True
  then show ?thesis by (simp add: clean_title_for_key_def)
next
  case False
  let ?t = "filter (\<lambda>c. c \<noteq> CHR ''}'') (filter (\<lambda>c. c \<noteq> CHR ''{'') x)"
  have "set (clean_title_for_key x) \<subseteq> insert (CHR 0x20) (set ?t)"
    using False set_strip [of "collapse_ws ?t"] set_collapse_ws [of ?t]
    by (auto simp: clean_title_for_key_def Let_def)
  then show ?thesis by auto
qed

lemma clean_title_ws_normal: "ws_normal (clean_title_for_key x)"
  by (simp add: clean_title_for_key_def Let_def ws_normal_strip ws_normal_collapse_ws)

lemma clean_title_stripped: "strip (clean_title_for_key x) = clean_title_for_key x"
  by (simp add: clean_title_for_key_def Let_def strip_idem) (simp add: strip_def)

text \<open>
  Claim C8. For every string \<open>x\<close>, the normalised title \<open>clean_title_for_key x\<close> contains
  neither of the grouping characters, and normalising it again changes nothing.
\<close>

theorem clean_title_for_key_normalizes:
  "CHR ''{'' \<notin> set (clean_title_for_key x) \<and> CHR ''}'' \<notin> set (clean_title_for_key x)
   \<and> clean_title_for_key (clean_title_for_key x) = clean_title_for_key x"
proof -
  let ?r = "clean_title_for_key x"
  have nb: "CHR ''{'' \<notin> set ?r \<and> CHR ''}'' \<notin> set ?r" by (rule clean_title_no_brace)
  then have f: "filter (\<lambda>c. c \<noteq> CHR ''}'') (filter (\<lambda>c. c \<noteq> CHR ''{'') ?r) = ?r"
    by (auto simp: filter_id_conv)
  have "strip (collapse_ws ?r) = ?r"
    by (simp add: collapse_ws_fixed clean_title_ws_normal clean_title_stripped)
  with f have "clean_title_for_key ?r = ?r"
    by (simp add: clean_title_for_key_def [of ?r] Let_def)
  with nb show ?thesis by simp
qed

section \<open>The duplicate-key check\<close>

lemma duplicate_blocks_mem:
  "(k, l) \<in> set (duplicate_blocks blocks) \<longleftrightarrow> (\<exists>r. DuplicateBlockKeyBlock k l r \<in> set blocks)"
proof (induction blocks)
  case Nil
  show ?case by (simp add: duplicate_blocks_def)
next
  case (Cons b bs)
  then show ?case by (cases b) (auto simp: duplicate_blocks_def)
qed

text \<open>
  Claim C6. When the parsed block sequence holds a duplicate-key block, the script stops
  with exit status 1 before the first pass: it prints, on standard error, every repeated
  key with its zero-based start line plus one, and writes no output file.
\<close>

theorem duplicate_keys_are_fatal:
  assumes "DuplicateBlockKeyBlock dk dl dr \<in> set (parse_file input_file)"
  shows "\<exists>out. main nlp parse_file [script, input_file] = Some out
           \<and> exit_status out = 1 \<and> written out = None \<and> stdout out = []
           \<and> stderr out = [DuplicateKeysFound]
                @ map (\<lambda>(k, l). DuplicateKeyAt k (l + 1)) (duplicate_blocks (parse_file input_file))
                @ [DuplicateKeysAdvice]
           \<and> (\<forall>k l r. DuplicateBlockKeyBlock k l r \<in> set (parse_file input_file)
                  \<longrightarrow> DuplicateKeyAt k (l + 1) \<in> set (stderr out))"
proof -
  let ?bs = "parse_file input_file"
  let ?out = "\<lparr>exit_status = 1, stdout = [],
               stderr = [DuplicateKeysFound]
                        @ map (\<lambda>(k, l). DuplicateKeyAt k (l + 1)) (duplicate_blocks ?bs)
                        @ [DuplicateKeysAdvice],
               written = None\<rparr>"
  from assms have "(dk, dl) \<in> set (duplicate_blocks ?bs)"
    using duplicate_blocks_mem by blast
  then have ne: "duplicate_blocks ?bs \<noteq> []" by auto
  then have m: "main nlp parse_file [script, input_file] = Some ?out"
    by (simp add: main_def run_def)
  have "\<forall>k l r. DuplicateBlockKeyBlock k l r \<in> set ?bs
           \<longrightarrow> DuplicateKeyAt k (l + 1) \<in> set (stderr ?out)"
  proof (intro allI impI)
    fix k l r
    assume "DuplicateBlockKeyBlock k l r \<in> set ?bs"
    then have "(k, l) \<in> set (duplicate_blocks ?bs)"
      using duplicate_blocks_mem by blast
    then have "(\<lambda>(k, l). DuplicateKeyAt k (l + 1)) (k, l)
                 \<in> (\<lambda>(k, l). DuplicateKeyAt k (l + 1)) ` set (duplicate_blocks ?bs)"
      by (rule imageI)
    then show "DuplicateKeyAt k (l + 1) \<in> set (stderr ?out)" by simp
  qed
  with m show ?thesis by simp
qed

theorem duplicate_keys_are_fatal_witness:
  "DuplicateBlockKeyBlock ''abc123'' 4 (Some ''@article{abc123, title = {Again}}'')
     \<in> set (parse_example ''refs.bib'')
   \<and> (\<exists>out. main unavailable parse_example [''format_bib.py'', ''refs.bib''] = Some out
         \<and> exit_status out = 1 \<and> written out = None
         \<and> stderr out = [DuplicateKeysFound, DuplicateKeyAt ''abc123'' 5, DuplicateKeysAdvice])"
proof -
  have h: "DuplicateBlockKeyBlock ''abc123'' 4 (Some ''@article{abc123, title = {Again}}'')
             \<in> set (parse_example ''refs.bib'')"
    by (simp add: parse_example_def dup_example_def)
  have d: "duplicate_blocks (parse_example ''refs.bib'') = [(''abc123'', 4)]"
    by (simp add: parse_example_def dup_example_def duplicate_blocks_def)
  from h d
    duplicate_keys_are_fatal [where parse_file = parse_example and input_file = "''refs.bib''"
      and nlp = unavailable and script = "''format_bib.py''" and dk = "''abc123''" and dl = 4
      and dr = "Some ''@article{abc123, title = {Again}}''"]
  show ?thesis by auto
qed

section \<open>The second pass\<close>

lemma foldl_write_block: "foldl (write_block er) out bs = out @ foldl (write_block er) [] bs"
proof (induction bs arbitrary: out)
  case Nil
  show ?case by simp
next
  case (Cons b bs)
  have w: "write_block er out b = out @ write_block er [] b" for out
    by (cases b) (simp_all add: write_block_def split: option.splits)
  have "foldl (write_block er) out (b # bs) = foldl (write_block er) (out @ write_block er [] b) bs"
    using w [of out] by simp
  also have "\<dots> = (out @ write_block er [] b) @ foldl (write_block er) [] bs"
    by (rule Cons.IH)
  also have "\<dots> = out @ foldl (write_block er) (write_block er [] b) bs"
    using Cons.IH [of "write_block er [] b"] by simp
  finally show ?case by simp
qed

lemma pass2_append: "pass2 er (xs @ ys) = pass2 er xs @ pass2 er ys"
  using foldl_write_block [of er "foldl (write_block er) [] xs" ys]
  by (simp add: pass2_def)

lemma pass2_single: "pass2 er [b] = write_block er [] b"
  by (simp add: pass2_def)

lemma pass2_split: "pass2 er (pre @ b # post) = pass2 er pre @ write_block er [] b @ pass2 er post"
  using pass2_append [of er pre "[b] @ post"] pass2_append [of er "[b]" post]
  by (simp add: pass2_single)

text \<open>
  Claim C9. A block that is not an entry and has raw text is written by the second pass
  as that raw text, followed by a line break when the text does not end with one, at the
  place the block has in the sequence: between the output of the blocks before it and
  the output of the blocks after it.
\<close>

theorem other_blocks_preserved:
  assumes "\<not> is_entry b" and "block_raw b = Some raw"
  shows "pass2 er (pre @ b # post)
           = pass2 er pre @ (if endswith_newline raw then raw else raw @ newline) @ pass2 er post"
proof -
  from assms have "write_block er [] b = (if endswith_newline raw then raw else raw @ newline)"
    by (cases b) (simp_all add: write_block_def)
  then show ?thesis by (simp add: pass2_split)
qed

theorem other_blocks_preserved_witness:
  "\<not> is_entry comment_example \<and> block_raw comment_example = Some ''% my library''
   \<and> pass2 [] ([string_example] @ comment_example # [string_example])
       = ''@string{jml = {J. Mach. Learn.}}'' @ newline
         @ ''% my library'' @ newline
         @ ''@string{jml = {J. Mach. Learn.}}'' @ newline"
proof -
  have a: "\<not> is_entry comment_example" by (simp add: comment_example_def)
  have b: "block_raw comment_example = Some ''% my library''" by (simp add: comment_example_def)
  have c: "pass2 [] [string_example] = ''@string{jml = {J. Mach. Learn.}}'' @ newline"
    by (simp add: pass2_def string_example_def write_block_def endswith_newline_def newline_def)
  have d: "\<not> endswith_newline ''% my library''"
    by (simp add: endswith_newline_def)
  from other_blocks_preserved [OF a b, of "[]" "[string_example]" "[string_example]"] a b c d
  show ?thesis by simp
qed

section \<open>The formatted entry\<close>

lemma rstrip_field_line:
  "rstrip_char (CHR '','') (field_line f) = ''  '' @ fst f @ '' = {'' @ snd f @ ''}''"
  by (simp add: rstrip_char_def field_line_def)

text \<open>
  Claim C7, as amended. The replacement text of an entry opens with the line holding
  the entry type, the derived key and the title field, which always keeps its final
  comma. When the entry has no field other than \<^verbatim>\<open>title\<close>, the closing brace follows at
  once. Otherwise every other field follows on its own line, indented by two blanks, in
  source order, each ending with a comma except the last, and the closing brace ends the
  text.
\<close>

theorem format_entry_shape:
  "format_entry e k title =
     (let other = filter (\<lambda>f. fst f \<noteq> ''title'') (entry_fields e);
          opening = ''@'' @ entry_type e @ ''{'' @ k @ '', title = {'' @ title @ ''},''
      in if other = [] then opening @ newline @ ''}''
         else join newline
                (opening
                 # map (\<lambda>f. ''  '' @ fst f @ '' = {'' @ snd f @ ''},'') (butlast other)
                 @ [''  '' @ fst (last other) @ '' = {'' @ snd (last other) @ ''}'', ''}'']))"
proof -
  let ?other = "filter (\<lambda>f. fst f \<noteq> ''title'') (entry_fields e)"
  show ?thesis
  proof (cases "?other = []")
    case True
    then show ?thesis
      by (simp add: format_entry_def opening_line_def Let_def)
  next
    case False
    then have bl: "butlast (opening_line e k title # map field_line ?other)
                     = opening_line e k title # map field_line (butlast ?other)"
      by (simp add: map_butlast)
    from False have la: "last (opening_line e k title # map field_line ?other)
                     = field_line (last ?other)"
      by (simp add: last_map)
    have fl: "field_line = (\<lambda>f. ''  '' @ fst f @ '' = {'' @ snd f @ ''},'')"
      by (rule ext) (simp add: field_line_def)
    from False have "format_entry e k title
        = join newline ((opening_line e k title # map field_line (butlast ?other)
             @ [''  '' @ fst (last ?other) @ '' = {'' @ snd (last ?other) @ ''}'']) @ [''}''])"
      unfolding format_entry_def Let_def using bl la by (simp add: rstrip_field_line)
    with False show ?thesis
      by (simp add: Let_def opening_line_def fl)
  qed
qed

theorem format_entry_shape_witness:
  "format_entry three_field_example ''smith2020'' ''Sets''
     = ''@article{smith2020, title = {Sets},'' @ newline
       @ ''  author = {Smith, J.},'' @ newline
       @ ''  year = {2020}'' @ newline
       @ ''}''"
  using format_entry_shape [of three_field_example "''smith2020''" "''Sets''"]
  by (simp add: three_field_example_def)

text \<open>
  Claim C7 as stated fails for an entry whose only field is the title: its opening line
  is the last field line, and it keeps its comma.
\<close>

theorem trailing_comma_counterexample:
  "format_entry title_only_example ''unknown0000'' ''Sets''
     = ''@book{unknown0000, title = {Sets},'' @ newline @ ''}''
   \<and> format_entry title_only_example ''unknown0000'' ''Sets''
     \<noteq> ''@book{unknown0000, title = {Sets}'' @ newline @ ''}''"
  by (simp add: format_entry_def title_only_example_def opening_line_def newline_def)

section \<open>The year token\<close>








section \<open>The first pass\<close>

lemma escalate_fresh:
  assumes "escalate nlp ku title k n = Some y"
  shows "y \<notin> fst ` set ku"
proof (rule escalate.raw_induct [where P = "\<lambda>nlp ku title k n y. y \<notin> fst ` set ku", OF _ assms])
  fix f and nlp :: tagger and ku :: "(string \<times> info list) list" and title k :: string
    and n :: int and y :: string
  assume ih: "\<And>nlp ku title k n y. f nlp ku title k n = Some y \<Longrightarrow> y \<notin> fst ` set ku"
    and eq: "(if k \<in> fst ` set ku
              then f nlp ku title (k @ extract_title_abbreviation nlp title True n) (2 * n)
              else Some k) = Some y"
  show "y \<notin> fst ` set ku"
  proof (cases "k \<in> fst ` set ku")
    case True
    with eq have "f nlp ku title (k @ extract_title_abbreviation nlp title True n) (2 * n) = Some y"
      by simp
    then show ?thesis by (rule ih)
  next
    case False
    with eq show ?thesis by simp
  qed
qed

lemma escalate_stuck:
  assumes "k \<in> fst ` set ku" and "\<forall>m. extract_title_abbreviation nlp title True m = []"
  shows "escalate nlp ku title k n = None"
proof (rule ccontr)
  assume "escalate nlp ku title k n \<noteq> None"
  then obtain y where run: "escalate nlp ku title k n = Some y" by auto
  have "\<not> (k \<in> fst ` set ku \<and> (\<forall>m. extract_title_abbreviation nlp title True m = []))"
  proof (rule escalate.raw_induct [where P = "\<lambda>nlp ku title k n y.
      \<not> (k \<in> fst ` set ku \<and> (\<forall>m. extract_title_abbreviation nlp title True m = []))", OF _ run])
    fix f and nlp :: tagger and ku :: "(string \<times> info list) list" and title k :: string
      and n :: int and y :: string
    assume ih: "\<And>nlp ku title k n y. f nlp ku title k n = Some y \<Longrightarrow>
        \<not> (k \<in> fst ` set ku \<and> (\<forall>m. extract_title_abbreviation nlp title True m = []))"
      and eq: "(if k \<in> fst ` set ku
                then f nlp ku title (k @ extract_title_abbreviation nlp title True n) (2 * n)
                else Some k) = Some y"
    show "\<not> (k \<in> fst ` set ku \<and> (\<forall>m. extract_title_abbreviation nlp title True m = []))"
    proof
      assume stuck: "k \<in> fst ` set ku \<and> (\<forall>m. extract_title_abbreviation nlp title True m = [])"
      with eq have "f nlp ku title k (2 * n) = Some y" by simp
      then have "\<not> (k \<in> fst ` set ku \<and> (\<forall>m. extract_title_abbreviation nlp title True m = []))"
        by (rule ih)
      with stuck show False by simp
    qed
  qed
  with assms show False by simp
qed

lemma no_content_words_no_abbreviation:
  "content_words_of title = [] \<Longrightarrow> extract_title_abbreviation nlp title u n = []"
  by (simp add: extract_title_abbreviation_def)

lemma update_fresh: "k \<notin> fst ` set al \<Longrightarrow> AList.update k v al = al @ [(k, v)]"
  by (induction al) auto

lemma map_of_fresh: "k \<notin> fst ` set al \<Longrightarrow> map_of al k = None"
  by (simp add: map_of_eq_None_iff)

lemma setdefault_append_fresh:
  "k \<notin> fst ` set ku \<Longrightarrow> setdefault_append k item ku = ku @ [(k, [item])]"
  by (simp add: setdefault_append_def map_of_fresh update_fresh)

lemma set_update_subset: "set (AList.update k v al) \<subseteq> insert (k, v) (set al)"
  by (induction al) auto

lemma pass1_entry_skip:
  "lower (entry_title e) \<in> seen_titles st \<Longrightarrow> pass1_entry nlp st e = Some st"
  by (simp add: pass1_entry_def Let_def)

lemma pass1_entry_keep:
  assumes "lower (entry_title e) \<notin> seen_titles st" and "pass1_entry nlp st e = Some st'"
  shows "\<exists>k. k \<notin> fst ` set (key_usage st)
           \<and> st' = \<lparr>seen_titles = insert (lower (entry_title e)) (seen_titles st),
                     key_usage = key_usage st @ [(k, [info_of e])],
                     entry_replacements =
                       AList.update (start_line e) (format_entry e k (entry_title e))
                         (entry_replacements st)\<rparr>"
proof -
  let ?k0 = "extract_lastname (entry_author e) @ entry_year e"
  from assms obtain k where esc: "escalate nlp (key_usage st) (entry_title e) ?k0 2 = Some k"
    by (auto simp: pass1_entry_def Let_def split: option.splits)
  then have fresh: "k \<notin> fst ` set (key_usage st)" by (rule escalate_fresh)
  from assms esc have "st' = \<lparr>seen_titles = insert (lower (entry_title e)) (seen_titles st),
                     key_usage = setdefault_append k (info_of e) (key_usage st),
                     entry_replacements =
                       AList.update (start_line e) (format_entry e k (entry_title e))
                         (entry_replacements st)\<rparr>"
    by (simp add: pass1_entry_def Let_def info_of_def)
  with fresh show ?thesis by (auto simp: setdefault_append_fresh)
qed

lemma pass1_as_entries: "pass1 nlp st bs = pass1_entries nlp st (entries_of bs)"
  by (induction nlp st bs rule: pass1.induct) (simp_all split: option.splits)

lemma entries_of_append: "entries_of (xs @ ys) = entries_of xs @ entries_of ys"
  by (induction xs rule: entries_of.induct) simp_all

subsection \<open>A loop that does not end\<close>

lemma stop_word_library_diverges: "pass1 nlp initial_state stop_word_library = None"
proof -
  let ?a = "\<lparr>entry_type = ''article'', entry_key = ''a1'',
             entry_fields = [(''title'', ''Deep Learning''), (''author'', ''Smith, J.''),
                             (''year'', ''2020'')],
             start_line = 0\<rparr>"
  let ?b = "\<lparr>entry_type = ''article'', entry_key = ''a2'',
             entry_fields = [(''title'', ''The Of And''), (''author'', ''Smith, A.''),
                             (''year'', ''2020'')],
             start_line = 5\<rparr>"
  have ta: "entry_title ?a = ''Deep Learning''" by code_simp
  have la: "lower ''Deep Learning'' = ''deep learning''" by code_simp
  have ka: "extract_lastname (entry_author ?a) @ entry_year ?a = ''smith2020''" by code_simp
  have tb: "entry_title ?b = ''The Of And''" by code_simp
  have lb: "lower ''The Of And'' = ''the of and''" by code_simp
  have kb: "extract_lastname (entry_author ?b) @ entry_year ?b = ''smith2020''" by code_simp
  have cw: "content_words_of ''The Of And'' = []" by code_simp
  have ea: "escalate nlp [] ''Deep Learning'' ''smith2020'' 2 = Some ''smith2020''"
    by (subst escalate.simps) simp
  define st1 where "st1 = \<lparr>seen_titles = {''deep learning''},
       key_usage = [(''smith2020'', [\<lparr>info_title = ''Deep Learning'', info_orig_key = ''a1'', info_line = 0\<rparr>])],
       entry_replacements = [(0, format_entry ?a ''smith2020'' ''Deep Learning'')]\<rparr>"
  have s1: "pass1_entry nlp initial_state ?a = Some st1"
    by (simp add: pass1_entry_def Let_def ta la ka ea initial_state_def setdefault_append_def st1_def)
  have eb: "escalate nlp (key_usage st1) ''The Of And'' ''smith2020'' 2 = None"
    by (rule escalate_stuck) (simp_all add: st1_def no_content_words_no_abbreviation cw)
  have s2: "pass1_entry nlp st1 ?b = None"
    using eb by (simp add: pass1_entry_def Let_def tb lb kb) (simp add: st1_def)
  show ?thesis
    by (simp add: stop_word_library_def s1 s2)
qed

text \<open>
  Claim C3. The claim is that the collision loop ends for every record. It does not: when
  the candidate key is already in the usage index and the title has no content words, the
  abbreviation is empty for every \<open>n\<close>, the candidate never changes, and the loop runs for
  ever, whatever the tagger. On the library above the script never returns.
\<close>

theorem stop_word_title_never_returns:
  "run unavailable ''refs.bib.reformatted'' stop_word_library = None"
proof -
  have "duplicate_blocks stop_word_library = []"
    by (simp add: duplicate_blocks_def stop_word_library_def)
  then show ?thesis
    by (simp add: run_def stop_word_library_diverges)
qed

subsection \<open>Derived keys are unique\<close>

lemma usage_inv_mono: "usage_inv es st \<Longrightarrow> es \<subseteq> es' \<Longrightarrow> usage_inv es' st"
  unfolding usage_inv_def by blast

lemma usage_inv_step:
  assumes "usage_inv es st" and "pass1_entry nlp st e = Some st'"
  shows "usage_inv (insert e es) st'"
proof (cases "lower (entry_title e) \<in> seen_titles st")
  case True
  with assms(2) have "st' = st" by (simp add: pass1_entry_skip)
  with assms(1) show ?thesis by (auto intro: usage_inv_mono)
next
  case False
  from pass1_entry_keep [OF False assms(2)] obtain k where
    fresh: "k \<notin> fst ` set (key_usage st)" and
    st': "st' = \<lparr>seen_titles = insert (lower (entry_title e)) (seen_titles st),
                 key_usage = key_usage st @ [(k, [info_of e])],
                 entry_replacements =
                   AList.update (start_line e) (format_entry e k (entry_title e))
                     (entry_replacements st)\<rparr>"
    by blast
  from assms(1) have d: "distinct (map fst (key_usage st))"
    and u: "\<forall>p\<in>set (key_usage st). \<exists>x\<in>es. snd p = [info_of x]"
    and r: "\<forall>p\<in>set (entry_replacements st). \<exists>x\<in>es. \<exists>j.
            fst p = start_line x \<and> snd p = format_entry x j (entry_title x)
            \<and> (j, [info_of x]) \<in> set (key_usage st)"
    unfolding usage_inv_def by blast+
  have d': "distinct (map fst (key_usage st'))"
    using d fresh by (simp add: st')
  have u': "\<forall>p\<in>set (key_usage st'). \<exists>x\<in>insert e es. snd p = [info_of x]"
    using u by (auto simp: st')
  have r': "\<forall>p\<in>set (entry_replacements st'). \<exists>x\<in>insert e es. \<exists>j.
            fst p = start_line x \<and> snd p = format_entry x j (entry_title x)
            \<and> (j, [info_of x]) \<in> set (key_usage st')"
  proof
    fix p
    assume "p \<in> set (entry_replacements st')"
    then have "p = (start_line e, format_entry e k (entry_title e)) \<or> p \<in> set (entry_replacements st)"
      using set_update_subset [of "start_line e" "format_entry e k (entry_title e)" "entry_replacements st"]
      by (auto simp: st')
    then show "\<exists>x\<in>insert e es. \<exists>j.
            fst p = start_line x \<and> snd p = format_entry x j (entry_title x)
            \<and> (j, [info_of x]) \<in> set (key_usage st')"
    proof
      assume "p = (start_line e, format_entry e k (entry_title e))"
      then show ?thesis by (auto simp: st')
    next
      assume "p \<in> set (entry_replacements st)"
      with r obtain x j where "x \<in> es" "fst p = start_line x"
        "snd p = format_entry x j (entry_title x)" "(j, [info_of x]) \<in> set (key_usage st)"
        by blast
      then show ?thesis by (auto simp: st')
    qed
  qed
  from d' u' r' show ?thesis unfolding usage_inv_def by blast
qed

lemma usage_inv_entries:
  "pass1_entries nlp st xs = Some st' \<Longrightarrow> usage_inv es st \<Longrightarrow> usage_inv (es \<union> set xs) st'"
proof (induction xs arbitrary: st es)
  case Nil
  then show ?case by simp
next
  case (Cons x xs)
  from Cons.prems(1) obtain st1 where
    s1: "pass1_entry nlp st x = Some st1" and s2: "pass1_entries nlp st1 xs = Some st'"
    by (auto split: option.splits)
  from Cons.prems(2) s1 have "usage_inv (insert x es) st1" by (rule usage_inv_step)
  with s2 have "usage_inv (insert x es \<union> set xs) st'" by (rule Cons.IH)
  then show ?case by simp
qed

lemma conflict_report_empty:
  "\<forall>p\<in>set ku. length (snd p) = 1 \<Longrightarrow> conflict_report ku = []"
  by (auto simp: conflict_report_def)

text \<open>
  Claim C2. When the first pass completes, every key of the usage index holds exactly one
  provenance record, so the conflict report prints nothing; and every registered
  replacement is the formatted text of an entry under a key whose sole provenance record
  is that entry, so no two kept records share a key.
\<close>

theorem derived_keys_unique:
  assumes "pass1 nlp initial_state blocks = Some st"
  shows "(\<forall>p\<in>set (key_usage st). length (snd p) = 1)
       \<and> distinct (map fst (key_usage st))
       \<and> conflict_report (key_usage st) = []
       \<and> (\<forall>p\<in>set (entry_replacements st). \<exists>e\<in>set (entries_of blocks). \<exists>k.
             fst p = start_line e \<and> snd p = format_entry e k (entry_title e)
             \<and> map_of (key_usage st) k
                 = Some [\<lparr>info_title = entry_title e, info_orig_key = entry_key e,
                          info_line = start_line e\<rparr>])"
proof -
  have "usage_inv {} initial_state"
    by (simp add: usage_inv_def initial_state_def)
  with assms have inv: "usage_inv ({} \<union> set (entries_of blocks)) st"
    unfolding pass1_as_entries by (rule usage_inv_entries)
  then have d: "distinct (map fst (key_usage st))"
    and u: "\<forall>p\<in>set (key_usage st). \<exists>x\<in>set (entries_of blocks). snd p = [info_of x]"
    and r: "\<forall>p\<in>set (entry_replacements st). \<exists>x\<in>set (entries_of blocks). \<exists>j.
            fst p = start_line x \<and> snd p = format_entry x j (entry_title x)
            \<and> (j, [info_of x]) \<in> set (key_usage st)"
    unfolding usage_inv_def by simp_all
  from u have one: "\<forall>p\<in>set (key_usage st). length (snd p) = 1" by fastforce
  then have c: "conflict_report (key_usage st) = []" by (rule conflict_report_empty)
  from r d have "\<forall>p\<in>set (entry_replacements st). \<exists>e\<in>set (entries_of blocks). \<exists>k.
             fst p = start_line e \<and> snd p = format_entry e k (entry_title e)
             \<and> map_of (key_usage st) k = Some [info_of e]"
    by (simp add: map_of_eq_Some_iff)
  then have "\<forall>p\<in>set (entry_replacements st). \<exists>e\<in>set (entries_of blocks). \<exists>k.
             fst p = start_line e \<and> snd p = format_entry e k (entry_title e)
             \<and> map_of (key_usage st) k
                 = Some [\<lparr>info_title = entry_title e, info_orig_key = entry_key e,
                          info_line = start_line e\<rparr>]"
    by (simp add: info_of_def)
  with one d c show ?thesis by blast
qed

theorem derived_keys_unique_witness:
  "\<exists>st. pass1 unavailable initial_state collision_library = Some st
     \<and> map fst (key_usage st) = [''smith2020'', ''smith2020gn'']
     \<and> distinct (map fst (key_usage st))
     \<and> conflict_report (key_usage st) = []"
proof -
  have "map_option (\<lambda>st. map fst (key_usage st)) (pass1 unavailable initial_state collision_library)
          = Some [''smith2020'', ''smith2020gn'']"
    by code_simp
  then obtain st where p: "pass1 unavailable initial_state collision_library = Some st"
    and k: "map fst (key_usage st) = [''smith2020'', ''smith2020gn'']"
    by auto
  from derived_keys_unique [OF p] p k show ?thesis
    by (intro exI [of _ st]) simp
qed

subsection \<open>Deduplication by title\<close>

lemma pass1_entry_effect:
  assumes "pass1_entry nlp st e = Some st'"
  shows "seen_titles st' = insert (lower (entry_title e)) (seen_titles st)"
    and "lower (entry_title e) \<in> seen_titles st \<Longrightarrow> st' = st"
    and "lower (entry_title e) \<notin> seen_titles st \<Longrightarrow>
           \<exists>k. map_of (entry_replacements st')
                 = (map_of (entry_replacements st))
                     (start_line e \<mapsto> format_entry e k (entry_title e))"
proof -
  show "lower (entry_title e) \<in> seen_titles st \<Longrightarrow> st' = st"
    using assms by (simp add: pass1_entry_skip)
  show "lower (entry_title e) \<notin> seen_titles st \<Longrightarrow>
           \<exists>k. map_of (entry_replacements st')
                 = (map_of (entry_replacements st))
                     (start_line e \<mapsto> format_entry e k (entry_title e))"
    using pass1_entry_keep [OF _ assms] by (auto simp: update_conv')
  show "seen_titles st' = insert (lower (entry_title e)) (seen_titles st)"
  proof (cases "lower (entry_title e) \<in> seen_titles st")
    case True
    with assms have "st' = st" by (simp add: pass1_entry_skip)
    with True show ?thesis by auto
  next
    case False
    from pass1_entry_keep [OF False assms] show ?thesis by auto
  qed
qed

lemma pass1_entries_dedup:
  assumes "pass1_entries nlp st es = Some st'"
    and "distinct (map start_line es)"
    and "\<forall>x\<in>set es. map_of (entry_replacements st) (start_line x) = None"
  shows "(\<forall>l. l \<notin> start_line ` set es \<longrightarrow>
            map_of (entry_replacements st') l = map_of (entry_replacements st) l)
       \<and> (\<forall>pre e post. es = pre @ e # post \<longrightarrow>
            (lower (entry_title e) \<in> seen_titles st \<union> (\<lambda>x. lower (entry_title x)) ` set pre
               \<longrightarrow> map_of (entry_replacements st') (start_line e) = None)
          \<and> (lower (entry_title e) \<notin> seen_titles st \<union> (\<lambda>x. lower (entry_title x)) ` set pre
               \<longrightarrow> (\<exists>k. map_of (entry_replacements st') (start_line e)
                          = Some (format_entry e k (entry_title e)))))"
  using assms
proof (induction es arbitrary: st)
  case Nil
  then show ?case by simp
next
  case (Cons a es)
  let ?t = "\<lambda>x. lower (entry_title x)"
  from Cons.prems(1) obtain st1 where
    s1: "pass1_entry nlp st a = Some st1" and s2: "pass1_entries nlp st1 es = Some st'"
    by (auto split: option.splits)
  note eff = pass1_entry_effect [OF s1]
  have other: "map_of (entry_replacements st1) l = map_of (entry_replacements st) l"
    if "l \<noteq> start_line a" for l
  proof (cases "?t a \<in> seen_titles st")
    case True
    with eff(2) show ?thesis by simp
  next
    case False
    with eff(3) obtain k where "map_of (entry_replacements st1)
        = (map_of (entry_replacements st))(start_line a \<mapsto> format_entry a k (entry_title a))"
      by blast
    with that show ?thesis by simp
  qed
  from Cons.prems(2) have da: "start_line a \<notin> start_line ` set es" and de: "distinct (map start_line es)"
    by auto
  have free: "\<forall>x\<in>set es. map_of (entry_replacements st1) (start_line x) = None"
  proof
    fix x assume x: "x \<in> set es"
    then have "start_line x \<in> start_line ` set es" by (rule imageI)
    with da have "start_line x \<noteq> start_line a" by metis
    then have "map_of (entry_replacements st1) (start_line x)
                 = map_of (entry_replacements st) (start_line x)" by (rule other)
    with Cons.prems(3) x show "map_of (entry_replacements st1) (start_line x) = None" by simp
  qed
  note ih = Cons.IH [OF s2 de free]
  from ih have frame1: "\<And>l. l \<notin> start_line ` set es \<Longrightarrow>
       map_of (entry_replacements st') l = map_of (entry_replacements st1) l"
    by blast
  have frame: "\<forall>l. l \<notin> start_line ` set (a # es) \<longrightarrow>
            map_of (entry_replacements st') l = map_of (entry_replacements st) l"
    using frame1 other by auto
  have char: "(?t e \<in> seen_titles st \<union> ?t ` set pre
               \<longrightarrow> map_of (entry_replacements st') (start_line e) = None)
          \<and> (?t e \<notin> seen_titles st \<union> ?t ` set pre
               \<longrightarrow> (\<exists>k. map_of (entry_replacements st') (start_line e)
                          = Some (format_entry e k (entry_title e))))"
    if split: "a # es = pre @ e # post" for pre e post
  proof (cases pre)
    case Nil
    with split have ea: "e = a" by simp
    from da have keep: "map_of (entry_replacements st') (start_line a)
                          = map_of (entry_replacements st1) (start_line a)"
      by (rule frame1)
    show ?thesis
    proof (cases "?t a \<in> seen_titles st")
      case True
      with eff(2) have "st1 = st" by simp
      with keep Cons.prems(3) have "map_of (entry_replacements st') (start_line a) = None"
        by simp
      with True Nil ea show ?thesis by simp
    next
      case False
      with eff(3) obtain k where "map_of (entry_replacements st1)
        = (map_of (entry_replacements st))(start_line a \<mapsto> format_entry a k (entry_title a))"
        by blast
      with keep have "map_of (entry_replacements st') (start_line a)
                        = Some (format_entry a k (entry_title a))"
        by simp
      with False Nil ea show ?thesis by auto
    qed
  next
    case (Cons b pre')
    with split have ba: "b = a" and es: "es = pre' @ e # post" by simp_all
    from ih es have c: "(?t e \<in> seen_titles st1 \<union> ?t ` set pre'
               \<longrightarrow> map_of (entry_replacements st') (start_line e) = None)
          \<and> (?t e \<notin> seen_titles st1 \<union> ?t ` set pre'
               \<longrightarrow> (\<exists>k. map_of (entry_replacements st') (start_line e)
                          = Some (format_entry e k (entry_title e))))"
      by blast
    have "seen_titles st1 \<union> ?t ` set pre' = seen_titles st \<union> ?t ` set pre"
      using eff(1) Cons ba by auto
    with c show ?thesis by simp
  qed
  from frame char show ?case by blast
qed

lemma pass1_dedup:
  assumes "pass1 nlp initial_state blocks = Some st"
    and "distinct (map start_line (entries_of blocks))"
    and "blocks = bpre @ Entry e # bpost"
  shows "lower (entry_title e) \<in> (\<lambda>x. lower (entry_title x)) ` set (entries_of bpre)
           \<Longrightarrow> map_of (entry_replacements st) (start_line e) = None"
    and "lower (entry_title e) \<notin> (\<lambda>x. lower (entry_title x)) ` set (entries_of bpre)
           \<Longrightarrow> \<exists>k. map_of (entry_replacements st) (start_line e)
                     = Some (format_entry e k (entry_title e))"
proof -
  from assms(1) have p: "pass1_entries nlp initial_state (entries_of blocks) = Some st"
    by (simp add: pass1_as_entries)
  have f: "\<forall>x\<in>set (entries_of blocks).
             map_of (entry_replacements initial_state) (start_line x) = None"
    by (simp add: initial_state_def)
  have s: "entries_of blocks = entries_of bpre @ e # entries_of bpost"
    by (simp add: assms(3) entries_of_append)
  have i: "seen_titles initial_state = {}" by (simp add: initial_state_def)
  from pass1_entries_dedup [OF p assms(2) f] s i
  have c: "(lower (entry_title e) \<in> (\<lambda>x. lower (entry_title x)) ` set (entries_of bpre)
               \<longrightarrow> map_of (entry_replacements st) (start_line e) = None)
          \<and> (lower (entry_title e) \<notin> (\<lambda>x. lower (entry_title x)) ` set (entries_of bpre)
               \<longrightarrow> (\<exists>k. map_of (entry_replacements st) (start_line e)
                          = Some (format_entry e k (entry_title e))))"
    by (metis Un_empty_left)
  from c show "lower (entry_title e) \<in> (\<lambda>x. lower (entry_title x)) ` set (entries_of bpre)
           \<Longrightarrow> map_of (entry_replacements st) (start_line e) = None" by blast
  from c show "lower (entry_title e) \<notin> (\<lambda>x. lower (entry_title x)) ` set (entries_of bpre)
           \<Longrightarrow> \<exists>k. map_of (entry_replacements st) (start_line e)
                     = Some (format_entry e k (entry_title e))" by blast
qed

lemma write_entry_kept:
  "map_of er (start_line e) = Some text \<Longrightarrow> write_block er [] (Entry e) = text @ newline"
  by (simp add: write_block_def)

lemma write_entry_dropped:
  "map_of er (start_line e) = None \<Longrightarrow> write_block er [] (Entry e) = []"
  by (simp add: write_block_def)

text \<open>
  Deduplication in a run whose first pass completes. Let the entries of the block sequence
  have distinct start lines, and let \<open>e\<close> be an entry of it. When no earlier entry has the
  same canonical title up to case, \<open>e\<close> is kept: its formatted text is registered under its
  start line and the second pass writes it, with a line break, at the place of \<open>e\<close>. When
  an earlier entry has the same canonical title up to case, \<open>e\<close> is skipped: nothing is
  registered for it and the second pass writes nothing at its place.
\<close>

lemma dedup_in_complete_run:
  assumes "pass1 nlp initial_state blocks = Some st"
    and "distinct (map start_line (entries_of blocks))"
    and "blocks = bpre @ Entry e # bpost"
  shows "(lower (entry_title e) \<notin> (\<lambda>x. lower (entry_title x)) ` set (entries_of bpre) \<longrightarrow>
            (\<exists>k. map_of (entry_replacements st) (start_line e)
                    = Some (format_entry e k (entry_title e))
                \<and> pass2 (entry_replacements st) blocks
                    = pass2 (entry_replacements st) bpre
                      @ format_entry e k (entry_title e) @ newline
                      @ pass2 (entry_replacements st) bpost))
       \<and> (lower (entry_title e) \<in> (\<lambda>x. lower (entry_title x)) ` set (entries_of bpre) \<longrightarrow>
            map_of (entry_replacements st) (start_line e) = None
            \<and> pass2 (entry_replacements st) blocks
                = pass2 (entry_replacements st) bpre @ pass2 (entry_replacements st) bpost)"
proof (intro conjI impI)
  assume "lower (entry_title e) \<notin> (\<lambda>x. lower (entry_title x)) ` set (entries_of bpre)"
  with pass1_dedup(2) [OF assms] obtain k where
    k: "map_of (entry_replacements st) (start_line e) = Some (format_entry e k (entry_title e))"
    by blast
  then have "write_block (entry_replacements st) [] (Entry e)
               = format_entry e k (entry_title e) @ newline"
    by (rule write_entry_kept)
  then have "pass2 (entry_replacements st) blocks
                    = pass2 (entry_replacements st) bpre
                      @ format_entry e k (entry_title e) @ newline
                      @ pass2 (entry_replacements st) bpost"
    by (simp add: assms(3) pass2_split)
  with k show "\<exists>k. map_of (entry_replacements st) (start_line e)
                    = Some (format_entry e k (entry_title e))
                \<and> pass2 (entry_replacements st) blocks
                    = pass2 (entry_replacements st) bpre
                      @ format_entry e k (entry_title e) @ newline
                      @ pass2 (entry_replacements st) bpost"
    by blast
next
  assume "lower (entry_title e) \<in> (\<lambda>x. lower (entry_title x)) ` set (entries_of bpre)"
  with pass1_dedup(1) [OF assms]
  show "map_of (entry_replacements st) (start_line e) = None" by blast
  then have "write_block (entry_replacements st) [] (Entry e) = []"
    by (rule write_entry_dropped)
  then show "pass2 (entry_replacements st) blocks
                = pass2 (entry_replacements st) bpre @ pass2 (entry_replacements st) bpost"
    by (simp add: assms(3) pass2_split)
qed

lemma dedup_in_complete_run_example:
  "\<exists>st. pass1 unavailable initial_state duplicate_title_library = Some st
     \<and> distinct (map start_line (entries_of duplicate_title_library))
     \<and> entry_title survey_entry = ''Deep Learning for X''
     \<and> entry_title survey_entry_again = ''deep LEARNING for X''
     \<and> map_of (entry_replacements st) (start_line survey_entry) \<noteq> None
     \<and> map_of (entry_replacements st) (start_line survey_entry_again) = None
     \<and> pass2 (entry_replacements st) duplicate_title_library
         = pass2 (entry_replacements st) [OtherBlock 0 (Some ''% survey papers''), Entry survey_entry]
           @ pass2 (entry_replacements st) []"
proof -
  have "pass1 unavailable initial_state duplicate_title_library \<noteq> None" by code_simp
  then obtain st where p: "pass1 unavailable initial_state duplicate_title_library = Some st"
    by auto
  have d: "distinct (map start_line (entries_of duplicate_title_library))"
    by (simp add: duplicate_title_library_def survey_entry_def survey_entry_again_def)
  have s1: "duplicate_title_library
              = [OtherBlock 0 (Some ''% survey papers'')] @ Entry survey_entry # [Entry survey_entry_again]"
    and s2: "duplicate_title_library
              = [OtherBlock 0 (Some ''% survey papers''), Entry survey_entry] @ Entry survey_entry_again # []"
    by (simp_all add: duplicate_title_library_def)
  have t1: "entry_title survey_entry = ''Deep Learning for X''"
    and t2: "entry_title survey_entry_again = ''deep LEARNING for X''"
    and l: "lower (entry_title survey_entry_again) = lower (entry_title survey_entry)"
    by code_simp+
  have first: "lower (entry_title survey_entry)
                 \<notin> (\<lambda>x. lower (entry_title x)) ` set (entries_of [OtherBlock 0 (Some ''% survey papers'')])"
    by simp
  have again: "lower (entry_title survey_entry_again)
                 \<in> (\<lambda>x. lower (entry_title x))
                     ` set (entries_of [OtherBlock 0 (Some ''% survey papers''), Entry survey_entry])"
    using l by simp
  from dedup_in_complete_run [OF p d s1] first
  have a: "map_of (entry_replacements st) (start_line survey_entry) \<noteq> None" by auto
  from dedup_in_complete_run [OF p d s2] again
  have b: "map_of (entry_replacements st) (start_line survey_entry_again) = None
           \<and> pass2 (entry_replacements st) duplicate_title_library
               = pass2 (entry_replacements st) [OtherBlock 0 (Some ''% survey papers''), Entry survey_entry]
                 @ pass2 (entry_replacements st) []"
    by blast
  from p d t1 t2 a b show ?thesis
    by (intro exI [of _ st]) simp
qed

text \<open>
  Claim C1. The claim is that every record whose canonical title differs, up to case, from
  the titles of all earlier records is kept and written by the second pass, whatever the
  input. It fails on the two-entry library with the stop-word title: the two canonical
  titles differ, the start lines differ and the parser has flagged nothing, yet the first
  pass never ends, so neither record is ever written. The cause is the collision loop
  that does not end.
\<close>

theorem distinct_titles_never_written:
  "map lower (map entry_title (entries_of stop_word_library)) = [''deep learning'', ''the of and'']
   \<and> map start_line (entries_of stop_word_library) = [0, 5]
   \<and> duplicate_blocks stop_word_library = []
   \<and> pass1 unavailable initial_state stop_word_library = None"
proof -
  have t: "map lower (map entry_title (entries_of stop_word_library))
             = [''deep learning'', ''the of and'']"
    by code_simp
  have l: "map start_line (entries_of stop_word_library) = [0, 5]"
    by (simp add: stop_word_library_def)
  have d: "duplicate_blocks stop_word_library = []"
    by (simp add: duplicate_blocks_def stop_word_library_def)
  from t l d stop_word_library_diverges [of unavailable] show ?thesis by simp
qed

subsection \<open>Entries without a title\<close>

lemma entry_title_missing: "fields_dict e ''title'' = None \<Longrightarrow> entry_title e = []"
  by (simp add: entry_title_def get_field_def strip_def clean_title_for_key_def)

lemma format_entry_opening:
  "\<exists>rest. format_entry e k title = opening_line e k title @ newline @ rest"
proof (cases "filter (\<lambda>f. fst f \<noteq> ''title'') (entry_fields e)")
  case Nil
  then show ?thesis by (simp add: format_entry_def Let_def)
next
  case (Cons f fs)
  define ls where "ls = map field_line (f # fs)"
  have ne: "ls \<noteq> []" by (simp add: ls_def)
  define closing where "closing = butlast ls @ [rstrip_char (CHR '','') (last (opening_line e k title # ls)), ''}'']"
  have "format_entry e k title
          = join newline ((butlast (opening_line e k title # ls)
                           @ [rstrip_char (CHR '','') (last (opening_line e k title # ls))]) @ [''}''])"
    using Cons by (simp add: format_entry_def Let_def ls_def)
  also have "butlast (opening_line e k title # ls) = opening_line e k title # butlast ls"
    using ne by simp
  finally have f: "format_entry e k title = join newline (opening_line e k title # closing)"
    by (simp add: closing_def)
  obtain x xs where "closing = x # xs" by (cases closing) (auto simp: closing_def)
  with f have "format_entry e k title = opening_line e k title @ newline @ join newline (x # xs)"
    by simp
  then show ?thesis by blast
qed

text \<open>
  Entries without a title in a run whose first pass completes. An entry without a
  \<^verbatim>\<open>title\<close> field, or whose title normalises to the empty string, has the empty
  canonical title. When the entries have distinct start lines, the first such entry is
  kept, with an empty title on its opening line, and every later one is skipped and writes
  nothing.
\<close>

lemma untitled_in_complete_run:
  assumes "pass1 nlp initial_state blocks = Some st"
    and "distinct (map start_line (entries_of blocks))"
    and "blocks = bpre @ Entry e # bpost"
    and "fields_dict e ''title'' = None \<or> entry_title e = []"
  shows "entry_title e = []
       \<and> ((\<forall>x\<in>set (entries_of bpre). entry_title x \<noteq> []) \<longrightarrow>
            (\<exists>k rest. map_of (entry_replacements st) (start_line e)
                    = Some (''@'' @ entry_type e @ ''{'' @ k @ '', title = {},'' @ newline @ rest)
                \<and> pass2 (entry_replacements st) blocks
                    = pass2 (entry_replacements st) bpre
                      @ (''@'' @ entry_type e @ ''{'' @ k @ '', title = {},'' @ newline @ rest)
                      @ newline
                      @ pass2 (entry_replacements st) bpost))
       \<and> ((\<exists>x\<in>set (entries_of bpre). entry_title x = []) \<longrightarrow>
            map_of (entry_replacements st) (start_line e) = None
            \<and> pass2 (entry_replacements st) blocks
                = pass2 (entry_replacements st) bpre @ pass2 (entry_replacements st) bpost)"
proof -
  let ?er = "entry_replacements st"
  from assms(4) have t: "entry_title e = []" using entry_title_missing by blast
  have seen: "lower (entry_title e) \<in> (\<lambda>x. lower (entry_title x)) ` set (entries_of bpre)
                \<longleftrightarrow> (\<exists>x\<in>set (entries_of bpre). entry_title x = [])"
    using t by (auto simp: lower_def)
  have kept: "\<exists>k rest. map_of ?er (start_line e)
                    = Some (''@'' @ entry_type e @ ''{'' @ k @ '', title = {},'' @ newline @ rest)
                \<and> pass2 ?er blocks
                    = pass2 ?er bpre
                      @ (''@'' @ entry_type e @ ''{'' @ k @ '', title = {},'' @ newline @ rest)
                      @ newline @ pass2 ?er bpost"
    if "\<forall>x\<in>set (entries_of bpre). entry_title x \<noteq> []"
  proof -
    from that seen have "lower (entry_title e) \<notin> (\<lambda>x. lower (entry_title x)) ` set (entries_of bpre)"
      by blast
    with pass1_dedup(2) [OF assms(1-3)] t obtain k where
      k: "map_of ?er (start_line e) = Some (format_entry e k [])" by auto
    obtain rest where r: "format_entry e k [] = opening_line e k [] @ newline @ rest"
      using format_entry_opening by blast
    have o: "opening_line e k [] = ''@'' @ entry_type e @ ''{'' @ k @ '', title = {},''"
      by (simp add: opening_line_def)
    from k r o have m: "map_of ?er (start_line e)
        = Some (''@'' @ entry_type e @ ''{'' @ k @ '', title = {},'' @ newline @ rest)"
      by simp
    then have "write_block ?er [] (Entry e)
        = (''@'' @ entry_type e @ ''{'' @ k @ '', title = {},'' @ newline @ rest) @ newline"
      by (rule write_entry_kept)
    then have "pass2 ?er blocks
                    = pass2 ?er bpre
                      @ (''@'' @ entry_type e @ ''{'' @ k @ '', title = {},'' @ newline @ rest)
                      @ newline @ pass2 ?er bpost"
      by (simp add: assms(3) pass2_split)
    with m show ?thesis by blast
  qed
  have dropped: "map_of ?er (start_line e) = None
            \<and> pass2 ?er blocks = pass2 ?er bpre @ pass2 ?er bpost"
    if "\<exists>x\<in>set (entries_of bpre). entry_title x = []"
  proof -
    from that seen have "lower (entry_title e) \<in> (\<lambda>x. lower (entry_title x)) ` set (entries_of bpre)"
      by blast
    with pass1_dedup(1) [OF assms(1-3)] have n: "map_of ?er (start_line e) = None" by blast
    then have "write_block ?er [] (Entry e) = []" by (rule write_entry_dropped)
    then have "pass2 ?er blocks = pass2 ?er bpre @ pass2 ?er bpost"
      by (simp add: assms(3) pass2_split)
    with n show ?thesis by simp
  qed
  from t kept dropped show ?thesis by blast
qed

lemma untitled_in_complete_run_example:
  "\<exists>st. pass1 unavailable initial_state untitled_library = Some st
     \<and> distinct (map start_line (entries_of untitled_library))
     \<and> fields_dict untitled_entry ''title'' = None
     \<and> entry_title blank_title_entry = []
     \<and> map_of (entry_replacements st) (start_line untitled_entry) \<noteq> None
     \<and> map_of (entry_replacements st) (start_line blank_title_entry) = None
     \<and> pass2 (entry_replacements st) untitled_library
         = pass2 (entry_replacements st) [Entry untitled_entry] @ pass2 (entry_replacements st) []"
proof -
  have "pass1 unavailable initial_state untitled_library \<noteq> None" by code_simp
  then obtain st where p: "pass1 unavailable initial_state untitled_library = Some st"
    by auto
  have d: "distinct (map start_line (entries_of untitled_library))"
    by (simp add: untitled_library_def untitled_entry_def blank_title_entry_def)
  have s1: "untitled_library = [] @ Entry untitled_entry # [Entry blank_title_entry]"
    and s2: "untitled_library = [Entry untitled_entry] @ Entry blank_title_entry # []"
    by (simp_all add: untitled_library_def)
  have f1: "fields_dict untitled_entry ''title'' = None"
    by (simp add: fields_dict_def untitled_entry_def)
  have t2: "entry_title blank_title_entry = []" by code_simp
  have h1: "fields_dict untitled_entry ''title'' = None \<or> entry_title untitled_entry = []"
    using f1 by simp
  have h2: "fields_dict blank_title_entry ''title'' = None \<or> entry_title blank_title_entry = []"
    using t2 by simp
  from untitled_in_complete_run [OF p d s1 h1]
  have a: "map_of (entry_replacements st) (start_line untitled_entry) \<noteq> None" by auto
  from untitled_in_complete_run [OF p d s2 h2]
  have t1: "entry_title untitled_entry = [] \<longrightarrow>
            map_of (entry_replacements st) (start_line blank_title_entry) = None
            \<and> pass2 (entry_replacements st) untitled_library
                = pass2 (entry_replacements st) [Entry untitled_entry]
                  @ pass2 (entry_replacements st) []"
    by simp
  from f1 have "entry_title untitled_entry = []" by (rule entry_title_missing)
  with t1 have b: "map_of (entry_replacements st) (start_line blank_title_entry) = None
            \<and> pass2 (entry_replacements st) untitled_library
                = pass2 (entry_replacements st) [Entry untitled_entry]
                  @ pass2 (entry_replacements st) []"
    by blast
  from p d f1 t2 a b show ?thesis
    by (intro exI [of _ st]) simp
qed

lemma untitled_collision_library_diverges:
  "pass1 nlp initial_state untitled_collision_library = None"
proof -
  have ta: "entry_title titled_smith_entry = ''Deep Learning''" by code_simp
  have la: "lower ''Deep Learning'' = ''deep learning''" by code_simp
  have ka: "extract_lastname (entry_author titled_smith_entry) @ entry_year titled_smith_entry
              = ''smith2020''" by code_simp
  have tb: "entry_title untitled_smith_entry = []" by code_simp
  have kb: "extract_lastname (entry_author untitled_smith_entry) @ entry_year untitled_smith_entry
              = ''smith2020''" by code_simp
  have ea: "escalate nlp [] ''Deep Learning'' ''smith2020'' 2 = Some ''smith2020''"
    by (subst escalate.simps) simp
  define st1 where "st1 = \<lparr>seen_titles = {''deep learning''},
       key_usage = [(''smith2020'', [\<lparr>info_title = ''Deep Learning'', info_orig_key = ''s1'',
                                     info_line = 0\<rparr>])],
       entry_replacements = [(0, format_entry titled_smith_entry ''smith2020'' ''Deep Learning'')]\<rparr>"
  have s1: "pass1_entry nlp initial_state titled_smith_entry = Some st1"
    by (simp add: pass1_entry_def Let_def ta la ka ea initial_state_def setdefault_append_def st1_def)
       (simp add: titled_smith_entry_def)
  have eb: "escalate nlp (key_usage st1) [] ''smith2020'' 2 = None"
    by (rule escalate_stuck) (simp_all add: st1_def extract_title_abbreviation_def)
  have s2: "pass1_entry nlp st1 untitled_smith_entry = None"
    using eb by (simp add: pass1_entry_def Let_def tb kb lower_def) (simp add: st1_def)
  show ?thesis
    by (simp add: untitled_collision_library_def s1 s2)
qed

text \<open>
  Claim C10. The claim is that, for every input, the first record without a title is kept
  with an empty title on its opening line. It fails on a titled entry followed by an
  entry without a title field, by the same surname and year: the second entry is the
  first one without a title, its base key is taken and the abbreviation of the empty
  title is empty for every \<open>n\<close>, so the first pass never ends and the entry is never kept.
  The cause is the collision loop that does not end.
\<close>

theorem first_untitled_record_never_kept:
  "fields_dict untitled_smith_entry ''title'' = None
   \<and> map entry_title (entries_of untitled_collision_library) = [''Deep Learning'', []]
   \<and> map start_line (entries_of untitled_collision_library) = [0, 5]
   \<and> duplicate_blocks untitled_collision_library = []
   \<and> pass1 unavailable initial_state untitled_collision_library = None"
proof -
  have f: "fields_dict untitled_smith_entry ''title'' = None"
    by (simp add: fields_dict_def untitled_smith_entry_def)
  have t: "map entry_title (entries_of untitled_collision_library) = [''Deep Learning'', []]"
    by code_simp
  have l: "map start_line (entries_of untitled_collision_library) = [0, 5]"
    by (simp add: untitled_collision_library_def titled_smith_entry_def untitled_smith_entry_def)
  have d: "duplicate_blocks untitled_collision_library = []"
    by (simp add: duplicate_blocks_def untitled_collision_library_def)
  from f t l d untitled_collision_library_diverges [of unavailable] show ?thesis by simp
qed

section \<open>The abbreviation window\<close>

lemma py_slice_length: "length (py_slice ws (n - 2) n) \<le> 2"
  by (auto simp: py_slice_def Let_def)

lemma py_slice_window:
  assumes "2 \<le> n"
  shows "py_slice ws (n - 2) n = take 2 (drop (nat (n - 2)) ws)"
proof -
  let ?len = "int (length ws)"
  consider "n \<le> ?len" | "n - 2 \<le> ?len" "?len < n" | "?len < n - 2" by linarith
  then show ?thesis
  proof cases
    case 1
    with assms have "nat (min n ?len - min (n - 2) ?len) = 2" by simp
    with 1 assms show ?thesis by (simp add: py_slice_def Let_def min_def)
  next
    case 2
    with assms have "length (drop (nat (n - 2)) ws) = nat (?len - (n - 2))" by simp
    moreover from 2 have "nat (?len - (n - 2)) \<le> 2" by simp
    ultimately have "take 2 (drop (nat (n - 2)) ws) = drop (nat (n - 2)) ws"
      and "take (nat (?len - (n - 2))) (drop (nat (n - 2)) ws) = drop (nat (n - 2)) ws"
      by simp_all
    with 2 assms show ?thesis by (simp add: py_slice_def Let_def min_def)
  next
    case 3
    with assms show ?thesis by (simp add: py_slice_def Let_def min_def)
  qed
qed

lemma py_slice_positions:
  assumes "2 \<le> n"
  shows "set (py_slice [0..<m] (n - 2) n) = {i. nat (n - 2) \<le> i \<and> i < nat n \<and> i < m}"
proof -
  have "set (take 2 (drop (nat (n - 2)) [0..<m])) = {i. nat (n - 2) \<le> i \<and> i < nat n \<and> i < m}"
  proof -
    have "drop (nat (n - 2)) [0..<m] = [nat (n - 2)..<m]" by (simp add: drop_upt)
    moreover have "take 2 [nat (n - 2)..<m] = [nat (n - 2)..<min m (nat (n - 2) + 2)]"
      by (simp add: take_upt min_def)
    moreover from assms have "nat (n - 2) + 2 = nat n" by simp
    ultimately show ?thesis by auto
  qed
  with assms show ?thesis by (simp add: py_slice_window)
qed

lemma pow2_ge: "j < k \<Longrightarrow> (2::nat) * 2 ^ j \<le> 2 ^ k"
proof -
  assume "j < k"
  then have "Suc j \<le> k" by simp
  then have "(2::nat) ^ Suc j \<le> 2 ^ k" by (rule power_increasing) simp
  then show ?thesis by simp
qed

lemma escalate_unroll:
  assumes "\<forall>i. s \<le> i \<and> i < r \<longrightarrow> escalation_key nlp title c i \<in> fst ` set ku"
    and "escalation_key nlp title c r \<notin> fst ` set ku"
    and "s \<le> r"
  shows "escalate nlp ku title (escalation_key nlp title c s) (2 * 2 ^ s)
           = Some (escalation_key nlp title c r)"
  using assms
proof (induction "r - s" arbitrary: s)
  case 0
  then have "s = r" by simp
  with "0.prems"(2) show ?case by (subst escalate.simps) simp
next
  case (Suc d)
  then have lt: "s < r" by simp
  with Suc.prems(1) have taken: "escalation_key nlp title c s \<in> fst ` set ku" by simp
  have "d = r - Suc s" using Suc.hyps(2) by simp
  moreover have "\<forall>i. Suc s \<le> i \<and> i < r \<longrightarrow> escalation_key nlp title c i \<in> fst ` set ku"
    using Suc.prems(1) by simp
  moreover from lt have "Suc s \<le> r" by simp
  ultimately have ih: "escalate nlp ku title (escalation_key nlp title c (Suc s)) (2 * 2 ^ Suc s)
           = Some (escalation_key nlp title c r)"
    using Suc.prems(2) by (intro Suc.hyps(1))
  have "escalate nlp ku title (escalation_key nlp title c s) (2 * 2 ^ s)
          = escalate nlp ku title
              (escalation_key nlp title c s @ extract_title_abbreviation nlp title True (2 * 2 ^ s))
              (2 * (2 * 2 ^ s))"
    using taken by (subst escalate.simps) simp
  with ih show ?case by simp
qed

lemma escalate_from_two:
  assumes "\<forall>i<r. escalation_key nlp title c i \<in> fst ` set ku"
    and "escalation_key nlp title c r \<notin> fst ` set ku"
  shows "escalate nlp ku title c 2 = Some (escalation_key nlp title c r)"
  using escalate_unroll [of 0 r nlp title c ku] assms by simp

lemma first_pass_escalation:
  "lower (entry_title e) \<notin> seen_titles st
     \<and> (\<forall>i<r. escalation_key nlp (entry_title e)
                    (extract_lastname (entry_author e) @ entry_year e) i
                  \<in> fst ` set (key_usage st))
     \<and> escalation_key nlp (entry_title e)
           (extract_lastname (entry_author e) @ entry_year e) r
         \<notin> fst ` set (key_usage st)
   \<longrightarrow> (\<exists>st'. pass1_entry nlp st e = Some st'
          \<and> map fst (key_usage st')
              = map fst (key_usage st)
                @ [escalation_key nlp (entry_title e)
                     (extract_lastname (entry_author e) @ entry_year e) r])"
proof (intro impI, elim conjE)
  let ?base = "extract_lastname (entry_author e) @ entry_year e"
  let ?key = "escalation_key nlp (entry_title e) ?base r"
  let ?item = "\<lparr>info_title = entry_title e, info_orig_key = entry_key e,
                info_line = start_line e\<rparr>"
  assume new: "lower (entry_title e) \<notin> seen_titles st"
    and taken: "\<forall>i<r. escalation_key nlp (entry_title e) ?base i \<in> fst ` set (key_usage st)"
    and free: "?key \<notin> fst ` set (key_usage st)"
  from taken free have esc: "escalate nlp (key_usage st) (entry_title e) ?base 2 = Some ?key"
    by (rule escalate_from_two)
  from free have app: "setdefault_append ?key ?item (key_usage st) = key_usage st @ [(?key, [?item])]"
    by (rule setdefault_append_fresh)
  from new esc have "pass1_entry nlp st e
      = Some \<lparr>seen_titles = insert (lower (entry_title e)) (seen_titles st),
              key_usage = setdefault_append ?key ?item (key_usage st),
              entry_replacements =
                AList.update (start_line e) (format_entry e ?key (entry_title e))
                  (entry_replacements st)\<rparr>"
    by (simp add: pass1_entry_def Let_def)
  with app show "\<exists>st'. pass1_entry nlp st e = Some st'
          \<and> map fst (key_usage st') = map fst (key_usage st) @ [?key]"
    by simp
qed

text \<open>
  Claim C4, as amended. The abbreviation of a title is built from the slice
  \<^verbatim>\<open>[n-2:n]\<close> of the (possibly refined) content words, which never holds more than two
  words. The collision loop starts with \<open>n = 2\<close> and doubles \<open>n\<close> on every retry: when the
  candidates after 0, ..., \<open>r - 1\<close> retries are all taken and the candidate after \<open>r\<close> retries
  is free, the loop returns the base key followed by the abbreviations for
  \<open>n = 2, 4, ..., 2 * 2 ^ (r - 1)\<close>, and that is the key the first pass commits for an entry
  whose title it has not seen. For \<open>n = 2 * 2 ^ k\<close> the slice is the two words at positions
  \<open>2 * 2 ^ k - 2\<close> and \<open>2 * 2 ^ k - 1\<close>. A later window lies strictly to the right of an
  earlier one and never overlaps it, and from the second window on there is a gap between
  a window and every later one: the windows are positions 0-1, 2-3, 6-7, 14-15, and so on.
\<close>

theorem abbreviation_window:
  "extract_title_abbreviation nlp title use_nlp n
     = (if content_words_of title = [] then []
        else take 3 (concat (map abbr_part
               (py_slice (refine_words nlp use_nlp (content_words_of title)) (n - 2) n))))
   \<and> length (py_slice ws (n - 2) n) \<le> 2
   \<and> ((\<forall>i<r. escalation_key nlp title c i \<in> fst ` set ku)
          \<and> escalation_key nlp title c r \<notin> fst ` set ku
        \<longrightarrow> escalate nlp ku title c 2 = Some (escalation_key nlp title c r))
   \<and> (lower (entry_title e) \<notin> seen_titles st
          \<and> (\<forall>i<r. escalation_key nlp (entry_title e)
                         (extract_lastname (entry_author e) @ entry_year e) i
                       \<in> fst ` set (key_usage st))
          \<and> escalation_key nlp (entry_title e)
                (extract_lastname (entry_author e) @ entry_year e) r
              \<notin> fst ` set (key_usage st)
        \<longrightarrow> (\<exists>st'. pass1_entry nlp st e = Some st'
               \<and> map fst (key_usage st')
                   = map fst (key_usage st)
                     @ [escalation_key nlp (entry_title e)
                          (extract_lastname (entry_author e) @ entry_year e) r]))
   \<and> escalation_key nlp title c 0 = c
   \<and> escalation_key nlp title c (Suc r)
       = escalation_key nlp title c r @ extract_title_abbreviation nlp title True (2 * 2 ^ r)
   \<and> py_slice ws (2 * 2 ^ k - 2) (2 * 2 ^ k) = take 2 (drop (2 * 2 ^ k - 2) ws)
   \<and> set (py_slice [0..<m] (2 * 2 ^ k - 2) (2 * 2 ^ k))
       = {i. 2 * 2 ^ k - 2 \<le> i \<and> i < 2 * 2 ^ k \<and> i < m}
   \<and> (j < k \<longrightarrow> 2 * 2 ^ j \<le> (2::nat) * 2 ^ k - 2)
   \<and> (0 < j \<longrightarrow> j < k \<longrightarrow> 2 * 2 ^ j < (2::nat) * 2 ^ k - 2)"
proof -
  have a: "extract_title_abbreviation nlp title use_nlp n
     = (if content_words_of title = [] then []
        else take 3 (concat (map abbr_part
               (py_slice (refine_words nlp use_nlp (content_words_of title)) (n - 2) n))))"
  proof (cases "title = []")
    case True
    then have "content_words_of title = []" by (simp add: content_words_of_def lower_def)
    with True show ?thesis by (simp add: extract_title_abbreviation_def)
  next
    case False
    then show ?thesis by (simp add: extract_title_abbreviation_def Let_def)
  qed
  have l: "(\<forall>i<r. escalation_key nlp title c i \<in> fst ` set ku)
          \<and> escalation_key nlp title c r \<notin> fst ` set ku
        \<longrightarrow> escalate nlp ku title c 2 = Some (escalation_key nlp title c r)"
    using escalate_from_two [of r nlp title c ku] by blast
  have p: "lower (entry_title e) \<notin> seen_titles st
          \<and> (\<forall>i<r. escalation_key nlp (entry_title e)
                         (extract_lastname (entry_author e) @ entry_year e) i
                       \<in> fst ` set (key_usage st))
          \<and> escalation_key nlp (entry_title e)
                (extract_lastname (entry_author e) @ entry_year e) r
              \<notin> fst ` set (key_usage st)
        \<longrightarrow> (\<exists>st'. pass1_entry nlp st e = Some st'
               \<and> map fst (key_usage st')
                   = map fst (key_usage st)
                     @ [escalation_key nlp (entry_title e)
                          (extract_lastname (entry_author e) @ entry_year e) r])"
    by (rule first_pass_escalation)
  have s: "escalation_key nlp title c 0 = c
     \<and> escalation_key nlp title c (Suc r)
       = escalation_key nlp title c r @ extract_title_abbreviation nlp title True (2 * 2 ^ r)"
    by simp
  have n2: "(2::int) \<le> 2 * 2 ^ k" by simp
  have nn: "nat (2 * 2 ^ k - 2) = 2 * 2 ^ k - 2" "nat ((2::int) * 2 ^ k) = 2 * 2 ^ k"
    by (simp_all add: nat_diff_distrib nat_mult_distrib nat_power_eq)
  have w: "py_slice ws (2 * 2 ^ k - 2) (2 * 2 ^ k) = take 2 (drop (2 * 2 ^ k - 2) ws)"
    using py_slice_window [OF n2, of ws] nn by simp
  have d: "set (py_slice [0..<m] (2 * 2 ^ k - 2) (2 * 2 ^ k))
       = {i. 2 * 2 ^ k - 2 \<le> i \<and> i < 2 * 2 ^ k \<and> i < m}"
    using py_slice_positions [OF n2, of m] nn by simp
  have e: "2 * 2 ^ j \<le> (2::nat) * 2 ^ k - 2" if "j < k"
  proof -
    from that have "(2::nat) * 2 ^ j \<le> 2 ^ k" by (rule pow2_ge)
    moreover have "(2::nat) \<le> 2 ^ k" using that pow2_ge [of 0 k] by simp
    ultimately show ?thesis by simp
  qed
  have f: "2 * 2 ^ j < (2::nat) * 2 ^ k - 2" if "0 < j" "j < k"
  proof -
    from that have "(2::nat) * 2 ^ j \<le> 2 ^ k" by (intro pow2_ge)
    moreover from \<open>0 < j\<close> have "(2::nat) * 2 ^ 0 \<le> 2 ^ j" by (rule pow2_ge)
    ultimately show ?thesis by simp
  qed
  have len: "length (py_slice ws (n - 2) n) \<le> 2" by (rule py_slice_length)
  from e have e': "j < k \<longrightarrow> 2 * 2 ^ j \<le> (2::nat) * 2 ^ k - 2" by (rule impI)
  from f have f': "0 < j \<longrightarrow> j < k \<longrightarrow> 2 * 2 ^ j < (2::nat) * 2 ^ k - 2"
    by (intro impI)
  note s1 = conjunct1 [OF s] and s2 = conjunct2 [OF s]
  show ?thesis
    by (rule conjI [OF a conjI [OF len conjI [OF l conjI [OF p conjI [OF s1 conjI [OF s2
          conjI [OF w conjI [OF d conjI [OF e' f']]]]]]]]])
qed

theorem abbreviation_window_witness:
  "escalate unavailable taken_keys long_title_example ''smith2020'' 2 = Some ''smith2020abgdit''
   \<and> (\<exists>st'. pass1_entry unavailable taken_state long_title_entry = Some st'
          \<and> map fst (key_usage st')
              = [''smith2020'', ''smith2020ab'', ''smith2020abgd'', ''smith2020abgdit''])
   \<and> extract_title_abbreviation unavailable long_title_example True 8 = ''it''
   \<and> set (py_slice [0..<8] (2 * 2 ^ 2 - 2) (2 * 2 ^ 2)) = {6, 7}
   \<and> (1::nat) < 2 \<and> (0::nat) < 1 \<and> 2 * 2 ^ 1 < (2::nat) * 2 ^ 2 - 2"
proof -
  have cw: "content_words_of long_title_example
              = [''alpha'', ''beta'', ''gamma'', ''delta'', ''epsilon'', ''zeta'', ''iota'', ''theta'']"
    by code_simp
  have ab: "take 3 (concat (map abbr_part (py_slice [''alpha'', ''beta'', ''gamma'', ''delta'', ''epsilon'', ''zeta'', ''iota'', ''theta''] (8 - 2) 8))) = ''it''"
    by code_simp
  have st: "{i::nat. 6 \<le> i \<and> i < 8} = {6, 7}" by auto
  have k0: "escalation_key unavailable long_title_example ''smith2020'' 0 = ''smith2020''"
    and k1: "escalation_key unavailable long_title_example ''smith2020'' 1 = ''smith2020ab''"
    and k2: "escalation_key unavailable long_title_example ''smith2020'' 2 = ''smith2020abgd''"
    and k3: "escalation_key unavailable long_title_example ''smith2020'' 3 = ''smith2020abgdit''"
    by code_simp+
  have keys: "fst ` set taken_keys = {''smith2020'', ''smith2020ab'', ''smith2020abgd''}"
    by (simp add: taken_keys_def)
  have taken: "\<forall>i<3. escalation_key unavailable long_title_example ''smith2020'' i
                  \<in> fst ` set taken_keys"
  proof (intro allI impI)
    fix i :: nat
    assume "i < 3"
    then consider "i = 0" | "i = 1" | "i = 2" by linarith
    then show "escalation_key unavailable long_title_example ''smith2020'' i \<in> fst ` set taken_keys"
    proof cases
      case 1
      show ?thesis unfolding 1 k0 keys by simp
    next
      case 2
      show ?thesis unfolding 2 k1 keys by simp
    next
      case 3
      show ?thesis unfolding 3 k2 keys by simp
    qed
  qed
  have free: "escalation_key unavailable long_title_example ''smith2020'' 3
                \<notin> fst ` set taken_keys"
    unfolding k3 keys by simp
  note w = abbreviation_window [where nlp = unavailable and title = long_title_example
      and use_nlp = True and n = 8 and ws = "[]::string list" and k = 2 and m = 8 and j = 1
      and c = "''smith2020''" and r = 3 and ku = taken_keys and e = long_title_entry
      and st = taken_state]
  note w1 = w [THEN conjunct1]
  note w3 = w [THEN conjunct2, THEN conjunct2, THEN conjunct1]
  note w4 = w [THEN conjunct2, THEN conjunct2, THEN conjunct2, THEN conjunct1]
  note w8 = w [THEN conjunct2, THEN conjunct2, THEN conjunct2, THEN conjunct2, THEN conjunct2,
               THEN conjunct2, THEN conjunct2, THEN conjunct1]
  note w10 = w [THEN conjunct2, THEN conjunct2, THEN conjunct2, THEN conjunct2, THEN conjunct2,
                THEN conjunct2, THEN conjunct2, THEN conjunct2, THEN conjunct2]
  have et: "entry_title long_title_entry = long_title_example"
    and eb: "extract_lastname (entry_author long_title_entry) @ entry_year long_title_entry
               = ''smith2020''"
    and el: "lower long_title_example = ''alpha beta gamma delta epsilon zeta iota theta''"
    by code_simp+
  have ku: "key_usage taken_state = taken_keys"
    and seen: "seen_titles taken_state = {''sets'', ''alpha beta'', ''alpha beta gamma delta''}"
    by (simp_all add: taken_state_def)
  have new: "lower long_title_example \<notin> seen_titles taken_state"
    unfolding el seen by simp
  have names: "map fst taken_keys = [''smith2020'', ''smith2020ab'', ''smith2020abgd'']"
    by (simp add: taken_keys_def)
  from w4 have "lower long_title_example \<notin> seen_titles taken_state
          \<and> (\<forall>i<3. escalation_key unavailable long_title_example ''smith2020'' i
                       \<in> fst ` set taken_keys)
          \<and> escalation_key unavailable long_title_example ''smith2020'' 3
              \<notin> fst ` set taken_keys
        \<longrightarrow> (\<exists>st'. pass1_entry unavailable taken_state long_title_entry = Some st'
               \<and> map fst (key_usage st')
                   = map fst taken_keys
                     @ [escalation_key unavailable long_title_example ''smith2020'' 3])"
    unfolding et eb ku .
  with new taken free
  have "\<exists>st'. pass1_entry unavailable taken_state long_title_entry = Some st'
               \<and> map fst (key_usage st')
                   = map fst taken_keys
                     @ [escalation_key unavailable long_title_example ''smith2020'' 3]"
    by blast
  then have committed: "\<exists>st'. pass1_entry unavailable taken_state long_title_entry = Some st'
          \<and> map fst (key_usage st')
              = [''smith2020'', ''smith2020ab'', ''smith2020abgd'', ''smith2020abgdit'']"
    unfolding k3 names by simp
  from w3 taken free
  have "escalate unavailable taken_keys long_title_example ''smith2020'' 2
          = Some (escalation_key unavailable long_title_example ''smith2020'' 3)"
    by (rule mp [OF _ conjI])
  then have esc: "escalate unavailable taken_keys long_title_example ''smith2020'' 2
                    = Some ''smith2020abgdit''"
    unfolding k3 .
  have "extract_title_abbreviation unavailable long_title_example True 8
     = (if content_words_of long_title_example = [] then []
        else take 3 (concat (map abbr_part
               (py_slice (refine_words unavailable True (content_words_of long_title_example)) (8 - 2) 8))))"
    by (rule w1)
  then have abbr: "extract_title_abbreviation unavailable long_title_example True 8 = ''it''"
    unfolding cw using ab by (simp add: refine_words_def unavailable_def)
  from w8 st have pos: "set (py_slice [0..<8] (2 * 2 ^ 2 - 2) (2 * 2 ^ 2)) = {6, 7}"
    by simp
  from w10 have gap: "2 * 2 ^ 1 < (2::nat) * 2 ^ 2 - 2" by simp
  from esc committed abbr pos gap show ?thesis by simp
qed

text \<open>
  Claim C4 as stated fails at the third retry. On four entries by the same surname and
  year, the fourth entry's key is extended three times: after the words at positions 0
  and 1 (\<open>n = 2\<close>) and at positions 2 and 3 (\<open>n = 4\<close>), the call with \<open>n = 8\<close> selects the
  words at positions 6 and 7, not the adjacent ones at positions 4 and 5, whose
  abbreviation would be \<^verbatim>\<open>ez\<close>.
\<close>

theorem window_walk_counterexample:
  "map_option (map fst \<circ> key_usage) (pass1 unavailable initial_state escalation_library)
     = Some [''smith2020'', ''smith2020ab'', ''smith2020abgd'', ''smith2020abgdit'']
   \<and> escalate unavailable taken_keys long_title_example ''smith2020'' 2 \<noteq> Some ''smith2020abgdez''
   \<and> extract_title_abbreviation unavailable long_title_example True 2 = ''ab''
   \<and> extract_title_abbreviation unavailable long_title_example True 4 = ''gd''
   \<and> extract_title_abbreviation unavailable long_title_example True 8 = ''it''
   \<and> take 3 (concat (map abbr_part (take 2 (drop 4 (content_words_of long_title_example)))))
       = ''ez''
   \<and> extract_title_abbreviation unavailable long_title_example True 8
       \<noteq> take 3 (concat (map abbr_part (take 2 (drop 4 (content_words_of long_title_example)))))"
  by code_simp


end
